theory Spec2Isabelle
  imports Main
begin

section \<open>Values shared by the binding and the transport\<close>

text \<open>
  The package-level error values of \<^verbatim>\<open>xhr\<close> (\<^verbatim>\<open>ErrAborted\<close>, \<^verbatim>\<open>ErrTimeout\<close>,
  \<^verbatim>\<open>ErrFailure\<close>), \<^verbatim>\<open>io.EOF\<close>, and the errors made by \<^verbatim>\<open>errors.New\<close>. A Go
  \<^verbatim>\<open>error\<close> that is \<^verbatim>\<open>nil\<close> is \<open>None\<close> of type \<open>error option\<close>.
\<close>

datatype error = ErrAborted | ErrTimeout | ErrFailure | EOF | New string

text \<open>A \<^verbatim>\<open>[]byte\<close> is a list of characters (a HOL character is one byte); the nil
  slice and the empty slice are both \<open>[]\<close>.\<close>

type_synonym bytes = string

text \<open>The \<^verbatim>\<open>data interface{}\<close> argument of \<^verbatim>\<open>Send\<close>.\<close>

datatype payload = NoData | StringData string | ByteData bytes | ObjectData nat

text \<open>How a blocking call ends: it returns a value, it panics with a message, or it
  is still blocked when the observed schedule is over.\<close>

datatype 'a completion = Returns 'a | Panics string | Blocks

section \<open>Buffered channels\<close>

text \<open>
  \<^verbatim>\<open>make(chan error, 1)\<close>: a FIFO buffer of bounded capacity, and the queue of
  goroutines that are parked in a blocking send, each with the value it wants to send.
\<close>

record chan =
  cap :: nat
  buf :: "error option list"
  sendq :: "error option list"

definition make_chan :: "nat \<Rightarrow> chan" where
  "make_chan n = \<lparr>cap = n, buf = [], sendq = []\<rparr>"

text \<open>\<^verbatim>\<open>c <- v\<close> in a goroutine of its own: the value is buffered when there is room,
  otherwise the goroutine parks.\<close>

definition chan_send :: "error option \<Rightarrow> chan \<Rightarrow> chan" where
  "chan_send v c =
     (if length (buf c) < cap c then c\<lparr>buf := buf c @ [v]\<rparr>
      else c\<lparr>sendq := sendq c @ [v]\<rparr>)"

text \<open>\<^verbatim>\<open>select { case c <- v: default: }\<close>: the value is buffered when there is
  room, otherwise nothing happens.\<close>

definition chan_try_send :: "error option \<Rightarrow> chan \<Rightarrow> chan" where
  "chan_try_send v c =
     (if length (buf c) < cap c then c\<lparr>buf := buf c @ [v]\<rparr> else c)"

text \<open>\<^verbatim>\<open><-c\<close>: \<open>None\<close> when the receive cannot proceed yet. Taking a value makes
  room for the first parked sender.\<close>

definition chan_recv :: "chan \<Rightarrow> (error option \<times> chan) option" where
  "chan_recv c =
     (case buf c of
        [] \<Rightarrow> None
      | v # vs \<Rightarrow>
          Some (v, case sendq c of
                     [] \<Rightarrow> c\<lparr>buf := vs\<rparr>
                   | s # ss \<Rightarrow> c\<lparr>buf := vs @ [s], sendq := ss\<rparr>))"

section \<open>The request handle\<close>

text \<open>The calls made on the wrapped \<^verbatim>\<open>XMLHttpRequest\<close> object, in order.\<close>

datatype js_call =
    JsOpen string string "(string \<times> string) option"
  | JsSetRequestHeader string string
  | JsSend payload
  | JsAbort

text \<open>
  The terminal events of the browser object. A load event comes with what the browser
  makes readable: status, status text, the raw header block and the response bytes.
\<close>

datatype xhr_event = LoadEvent int string string bytes | ErrorEvent | TimeoutEvent

fun event_name :: "xhr_event \<Rightarrow> string" where
  "event_name (LoadEvent st txt hs b) = ''load''"
| "event_name ErrorEvent = ''error''"
| "event_name TimeoutEvent = ''timeout''"

text \<open>
  \<^verbatim>\<open>type Request struct\<close>. \<open>calls\<close> records the calls on the embedded object,
  \<open>listeners\<close> the listeners that \<^verbatim>\<open>Send\<close> registers: the event type and the
  value that the listener's goroutine sends on \<open>ch\<close>. \<open>spawned\<close> holds the
  goroutines that listeners have started and that have not run yet, each with the value
  it is going to send. \<open>allResponseHeaders\<close> is what \<^verbatim>\<open>getAllResponseHeaders\<close>
  returns.
\<close>

record Request =
  ch :: "chan option"
  calls :: "js_call list"
  listeners :: "(string \<times> error option) list"
  spawned :: "error option list"
  Response :: "bytes option"
  ResponseType :: string
  Status :: int
  StatusText :: string
  allResponseHeaders :: string

definition new_XMLHttpRequest :: Request where
  "new_XMLHttpRequest =
     \<lparr>ch = None, calls = [], listeners = [], spawned = [], Response = None, ResponseType = [],
      Status = 0, StatusText = [], allResponseHeaders = []\<rparr>"

text \<open>\<^verbatim>\<open>func (r *Request) SetRequestHeader(header, value string)\<close>.\<close>

definition SetRequestHeader :: "Request \<Rightarrow> string \<Rightarrow> string \<Rightarrow> Request" where
  "SetRequestHeader r header v = r\<lparr>calls := calls r @ [JsSetRequestHeader header v]\<rparr>"

text \<open>\<^verbatim>\<open>r.Call("abort")\<close>: the browser clears the response of the aborted object
  (the comment in \<^verbatim>\<open>RoundTrip\<close> relies on it).\<close>

definition js_abort :: "Request \<Rightarrow> Request" where
  "js_abort r = r\<lparr>calls := calls r @ [JsAbort], Response := None\<rparr>"

text \<open>\<^verbatim>\<open>func (r *Request) Abort()\<close>: nothing on a handle whose \<open>ch\<close> is nil;
  otherwise the call on the object, then the send that does not block.\<close>

definition Abort :: "Request \<Rightarrow> Request" where
  "Abort r =
     (case ch r of
        None \<Rightarrow> r
      | Some c \<Rightarrow> (js_abort r)\<lparr>ch := Some (chan_try_send (Some ErrAborted) c)\<rparr>)"

text \<open>\<^verbatim>\<open>func (r *Request) Open(method, url, user, password string)\<close> of the earlier
  revision of the binding, where \<^verbatim>\<open>NewRequest\<close> does not open the object yet.
  \<open>Inl\<close> is the panic.\<close>

definition Open :: "Request \<Rightarrow> string \<Rightarrow> string \<Rightarrow> string \<Rightarrow> string \<Rightarrow> string + Request" where
  "Open r method url user password =
     (if ch r \<noteq> None then Inl ''must not use a Request for multiple requests''
      else Inr (r\<lparr>calls := calls r @ [JsOpen method url (Some (user, password))]\<rparr>))"

text \<open>
  \<^verbatim>\<open>Send\<close> up to and including \<^verbatim>\<open>r.Call("send", data)\<close>: the check, the channel,
  the three listeners, the dispatch.
\<close>

definition Send_dispatch :: "Request \<Rightarrow> payload \<Rightarrow> string + Request" where
  "Send_dispatch r data =
     (if ch r \<noteq> None then Inl ''must not use a Request for multiple requests''
      else Inr (r\<lparr>ch := Some (make_chan 1),
                  listeners := listeners r @
                    [(''load'', None), (''error'', Some ErrFailure), (''timeout'', Some ErrTimeout)],
                  calls := calls r @ [JsSend data]\<rparr>))"

text \<open>What a listener does, \<^verbatim>\<open>go func() { r.ch <- v }()\<close>: it starts a goroutine
  and returns. The goroutine runs its send when it is scheduled.\<close>

definition go_func :: "error option \<Rightarrow> Request \<Rightarrow> Request" where
  "go_func v r = r\<lparr>spawned := spawned r @ [v]\<rparr>"

text \<open>The \<open>i\<close>-th started goroutine runs \<^verbatim>\<open>r.ch <- v\<close>. (On a nil channel it
  would block forever.)\<close>

definition run_goroutine :: "nat \<Rightarrow> Request \<Rightarrow> Request" where
  "run_goroutine i r =
     (if i < length (spawned r)
      then (case ch r of
              None \<Rightarrow> r\<lparr>spawned := take i (spawned r) @ drop (Suc i) (spawned r)\<rparr>
            | Some c \<Rightarrow>
                r\<lparr>ch := Some (chan_send (spawned r ! i) c),
                  spawned := take i (spawned r) @ drop (Suc i) (spawned r)\<rparr>)
      else r)"

text \<open>What the browser makes readable on the object before it fires an event.\<close>

fun browser_set :: "xhr_event \<Rightarrow> Request \<Rightarrow> Request" where
  "browser_set (LoadEvent st txt hs b) r =
     r\<lparr>Status := st, StatusText := txt, allResponseHeaders := hs, Response := Some b\<rparr>"
| "browser_set ErrorEvent r = r"
| "browser_set TimeoutEvent r = r"

text \<open>The browser fires an event: it runs the listeners of that type in the order of
  their registration.\<close>

definition fire :: "xhr_event \<Rightarrow> Request \<Rightarrow> Request" where
  "fire ev r =
     foldl (\<lambda>r' (nm, v). if nm = event_name ev then go_func v r' else r')
       (browser_set ev r) (listeners r)"

section \<open>The transport and the world it runs in\<close>

text \<open>\<^verbatim>\<open>type Transport struct\<close>: the map from request pointers to handle pointers;
  \<open>None\<close> is the nil map. The mutex makes each method below one atomic step.\<close>

record Transport =
  inflight :: "(nat \<rightharpoonup> nat) option"

text \<open>
  The world of a run: the transport, the handles by address (\<open>fresh\<close> is the address
  that the next \<^verbatim>\<open>NewRequest\<close> allocates), and the log of what has been done to the
  bodies of requests, by request pointer.
\<close>

datatype io_effect = BodyRead nat | BodyClose nat

record world =
  transport :: Transport
  heap :: "nat \<rightharpoonup> Request"
  fresh :: nat
  io_log :: "io_effect list"

text \<open>A method call through the pointer \<open>p\<close> to a handle.\<close>

definition on_xhr :: "nat \<Rightarrow> (Request \<Rightarrow> Request) \<Rightarrow> world \<Rightarrow> world" where
  "on_xhr p f w = (case heap w p of None \<Rightarrow> w | Some r \<Rightarrow> w\<lparr>heap := (heap w)(p \<mapsto> f r)\<rparr>)"

text \<open>\<^verbatim>\<open>func NewRequest(method, url string) *Request\<close>: a new object, wrapped and
  opened.\<close>

definition NewRequest :: "world \<Rightarrow> string \<Rightarrow> string \<Rightarrow> nat \<times> world" where
  "NewRequest w method url =
     (fresh w,
      w\<lparr>heap := (heap w)(fresh w \<mapsto> new_XMLHttpRequest\<lparr>calls := [JsOpen method url None]\<rparr>),
        fresh := Suc (fresh w)\<rparr>)"

text \<open>\<^verbatim>\<open>func (t *Transport) setCanceler(req *http.Request, x *Request)\<close>; a nil
  \<open>x\<close> is \<open>None\<close>.\<close>

definition setCanceler :: "Transport \<Rightarrow> nat \<Rightarrow> nat option \<Rightarrow> Transport" where
  "setCanceler t req x =
     (let m = (case inflight t of None \<Rightarrow> Map.empty | Some m \<Rightarrow> m)
      in case x of
           None \<Rightarrow> t\<lparr>inflight := Some (m(req := None))\<rparr>
         | Some xp \<Rightarrow> t\<lparr>inflight := Some (m(req \<mapsto> xp))\<rparr>)"

text \<open>\<^verbatim>\<open>func (t *Transport) CancelRequest(req *http.Request)\<close>.\<close>

definition CancelRequest :: "world \<Rightarrow> nat \<Rightarrow> world" where
  "CancelRequest w req =
     (case inflight (transport w) of
        None \<Rightarrow> w
      | Some m \<Rightarrow> (case m req of None \<Rightarrow> w | Some xp \<Rightarrow> on_xhr xp Abort w))"

section \<open>What happens while a Send is blocked\<close>

text \<open>
  The package runs under GopherJS: one thread, and goroutines that switch only where
  one of them blocks. So the browser and the other goroutines act on the world exactly
  while \<^verbatim>\<open>Send\<close> waits in \<^verbatim>\<open>val := <-r.ch\<close>, one action at a time: the browser
  fires an event on a handle, a goroutine that a listener has started on a handle runs,
  another goroutine calls \<^verbatim>\<open>CancelRequest\<close> on the transport, or calls
  \<^verbatim>\<open>Abort\<close> on a handle.
\<close>

datatype action =
    Event nat xhr_event
  | Goroutine nat nat
  | CancelRequestCall nat
  | AbortCall nat

fun env_step :: "action \<Rightarrow> world \<Rightarrow> world" where
  "env_step (Event p ev) w = on_xhr p (fire ev) w"
| "env_step (Goroutine p i) w = on_xhr p (run_goroutine i) w"
| "env_step (CancelRequestCall req) w = CancelRequest w req"
| "env_step (AbortCall p) w = on_xhr p Abort w"

text \<open>
  The pending receive of the blocked \<^verbatim>\<open>Send\<close> on handle \<open>p\<close>: it completes as soon
  as the channel holds a value; \<open>got\<close> is the value it has taken, if any.
\<close>

definition recv :: "nat \<Rightarrow> world \<times> error option option \<Rightarrow> world \<times> error option option" where
  "recv p s =
     (case s of
        (w, Some v) \<Rightarrow> (w, Some v)
      | (w, None) \<Rightarrow>
          (case heap w p of
             None \<Rightarrow> (w, None)
           | Some r \<Rightarrow>
               (case ch r of
                  None \<Rightarrow> (w, None)
                | Some c \<Rightarrow>
                    (case chan_recv c of
                       None \<Rightarrow> (w, None)
                     | Some (v, c') \<Rightarrow> (w\<lparr>heap := (heap w)(p \<mapsto> r\<lparr>ch := Some c'\<rparr>)\<rparr>, Some v)))))"

fun parked :: "nat \<Rightarrow> action list \<Rightarrow> world \<times> error option option \<Rightarrow> world \<times> error option option" where
  "parked p [] s = s"
| "parked p (a # as) s = parked p as (recv p (env_step a (fst s), snd s))"

text \<open>
  \<^verbatim>\<open>func (r *Request) Send(data interface{}) error\<close> on the handle at \<open>p\<close>, with
  the schedule \<open>sched\<close> of what happens before the goroutine runs again. It returns the
  value its receive has taken; with no value it is still blocked.
\<close>

definition Send :: "world \<Rightarrow> nat \<Rightarrow> payload \<Rightarrow> action list \<Rightarrow> world \<times> error option completion" where
  "Send w p data sched =
     (case heap w p of
        None \<Rightarrow> (w, Panics ''invalid memory address or nil pointer dereference'')
      | Some r \<Rightarrow>
          (case Send_dispatch r data of
             Inl msg \<Rightarrow> (w, Panics msg)
           | Inr r' \<Rightarrow>
               (case parked p sched (recv p (w\<lparr>heap := (heap w)(p \<mapsto> r')\<rparr>, None)) of
                  (w', None) \<Rightarrow> (w', Blocks)
                | (w', Some v) \<Rightarrow> (w', Returns v))))"


section \<open>RoundTrip\<close>

text \<open>
  What \<^verbatim>\<open>RoundTrip\<close> uses of \<^verbatim>\<open>*http.Request\<close>. The map key of the transport is
  the pointer, which is passed next to the record. \<open>Header\<close> lists the entries of the
  header map in the order in which \<^verbatim>\<open>range\<close> visits them. A body is what
  \<^verbatim>\<open>ioutil.ReadAll\<close> gets out of it: the bytes and the error, if any.
\<close>

datatype body = Reader bytes "error option"

fun ReadAll :: "body \<Rightarrow> bytes \<times> error option" where
  "ReadAll (Reader bs e) = (bs, e)"

record http_Request =
  Method :: string
  URL :: string
  Host :: string
  Header :: "(string \<times> string list) list"
  Body :: "body option"

record http_Response =
  resp_Status :: string
  StatusCode :: int
  Proto :: string
  ProtoMajor :: int
  ProtoMinor :: int
  resp_Header :: "string \<rightharpoonup> string list"
  resp_Body :: bytes
  ContentLength :: int
  resp_Request :: "nat option"

text \<open>
  The two functions of the Go standard library that \<^verbatim>\<open>RoundTrip\<close> calls on the
  response headers are parameters of the model:
  \<^verbatim>\<open>textproto.NewReader(...).ReadMIMEHeader()\<close> on a string, and
  \<^verbatim>\<open>http.ParseHTTPVersion\<close>.
\<close>

record stdlib =
  ReadMIMEHeader :: "string \<Rightarrow> (string \<rightharpoonup> string list) \<times> error option"
  ParseHTTPVersion :: "string \<Rightarrow> int \<times> int \<times> bool"

text \<open>\<^verbatim>\<open>fmt.Sprintf("%d %s", ...)\<close>: the decimal digits of an integer.\<close>

fun digits :: "nat \<Rightarrow> string" where
  "digits n =
     (if n < 10 then [char_of (48 + n)]
      else digits (n div 10) @ [char_of (48 + n mod 10)])"

declare digits.simps [simp del]

definition itoa :: "int \<Rightarrow> string" where
  "itoa i = (if i < 0 then CHR ''-'' # digits (nat (- i)) else digits (nat i))"

text \<open>The header loop: one \<^verbatim>\<open>SetRequestHeader\<close> call for each value of each entry.\<close>

definition forward_headers :: "(string \<times> string list) list \<Rightarrow> Request \<Rightarrow> Request" where
  "forward_headers hdr x =
     foldl (\<lambda>r (k, v). foldl (\<lambda>r' vv. SetRequestHeader r' k vv) r v) x hdr"

text \<open>The deferred \<^verbatim>\<open>req.Body.Close()\<close>, registered only for a request with a body.\<close>

definition close_body :: "nat \<Rightarrow> http_Request \<Rightarrow> world \<Rightarrow> world" where
  "close_body rp req w =
     (case Body req of None \<Rightarrow> w | Some b \<Rightarrow> w\<lparr>io_log := io_log w @ [BodyClose rp]\<rparr>)"

text \<open>
  \<^verbatim>\<open>RoundTrip\<close> up to and including \<^verbatim>\<open>t.setCanceler(req, x)\<close>: either it has
  returned an error (\<open>Inl\<close>), or it is about to call \<^verbatim>\<open>x.Send(data)\<close> on the handle
  \<open>x\<close> (\<open>Inr\<close>).
\<close>

definition RoundTrip_setup :: "world \<Rightarrow> nat \<Rightarrow> http_Request \<Rightarrow> world \<times> error + nat \<times> bytes \<times> world" where
  "RoundTrip_setup w rp req =
     (if Host req \<noteq> [] then Inl (w, New ''cannot set Host header with XHR'')
      else
        (case NewRequest w (Method req) (URL req) of
           (x, w1) \<Rightarrow>
             let w2 = on_xhr x (\<lambda>r. r\<lparr>ResponseType := ''arraybuffer''\<rparr>) w1;
                 w3 = on_xhr x (forward_headers (Header req)) w2
             in (case Body req of
                   None \<Rightarrow>
                     Inr (x, [], w3\<lparr>transport := setCanceler (transport w3) rp (Some x)\<rparr>)
                 | Some b \<Rightarrow>
                     let w4 = w3\<lparr>io_log := io_log w3 @ [BodyRead rp]\<rparr>
                     in (case ReadAll b of
                           (data, Some err) \<Rightarrow> Inl (close_body rp req w4, err)
                         | (data, None) \<Rightarrow>
                             Inr (x, data,
                                  w4\<lparr>transport := setCanceler (transport w4) rp (Some x)\<rparr>)))))"

text \<open>The end of \<^verbatim>\<open>RoundTrip\<close>, from \<^verbatim>\<open>if x.Response == nil\<close> on.\<close>

definition make_response :: "stdlib \<Rightarrow> Request \<Rightarrow> nat \<Rightarrow> error + http_Response" where
  "make_response L x rp =
     (case Response x of
        None \<Rightarrow> Inl ErrAborted
      | Some b \<Rightarrow>
          (case ReadMIMEHeader L (allResponseHeaders x) of
             (headers, err) \<Rightarrow>
               let version =
                     (case headers ''Version'' of
                        None \<Rightarrow> ([], 0, 0)
                      | Some [] \<Rightarrow> ([], 0, 0)
                      | Some (v # vs) \<Rightarrow>
                          (case ParseHTTPVersion L v of (major, minor, ok) \<Rightarrow> (v, major, minor)));
                   resp =
                     \<lparr>resp_Status = itoa (Status x) @ '' '' @ StatusText x,
                      StatusCode = Status x,
                      Proto = fst version,
                      ProtoMajor = fst (snd version),
                      ProtoMinor = snd (snd version),
                      resp_Header = headers,
                      resp_Body = b,
                      ContentLength = int (length b),
                      resp_Request = Some rp\<rparr>
               in (case err of
                     None \<Rightarrow> Inr resp
                   | Some e \<Rightarrow> if e = EOF then Inr resp else Inl e)))"

text \<open>
  \<^verbatim>\<open>func (t *Transport) RoundTrip(req *http.Request) (*http.Response, error)\<close>.
  \<open>sched\<close> is what happens while the call is blocked in \<^verbatim>\<open>x.Send\<close>.
\<close>

definition RoundTrip ::
  "stdlib \<Rightarrow> world \<Rightarrow> nat \<Rightarrow> http_Request \<Rightarrow> action list \<Rightarrow> world \<times> (error + http_Response) completion" where
  "RoundTrip L w rp req sched =
     (case RoundTrip_setup w rp req of
        Inl (w', err) \<Rightarrow> (w', Returns (Inl err))
      | Inr (x, data, w5) \<Rightarrow>
          (case Send w5 x (ByteData data) sched of
             (w6, Blocks) \<Rightarrow> (w6, Blocks)
           | (w6, Panics msg) \<Rightarrow> (close_body rp req w6, Panics msg)
           | (w6, Returns err) \<Rightarrow>
               let w7 = close_body rp req (w6\<lparr>transport := setCanceler (transport w6) rp None\<rparr>)
               in (case err of
                     Some e \<Rightarrow> (w7, Returns (Inl e))
                   | None \<Rightarrow>
                       (case heap w7 x of
                          None \<Rightarrow> (w7, Panics ''invalid memory address or nil pointer dereference'')
                        | Some r \<Rightarrow> (w7, Returns (make_response L r rp))))))"

section \<open>A model of the two library functions\<close>

text \<open>
  Modelled from the spec: \<^verbatim>\<open>http.ParseHTTPVersion\<close> belongs to the Go standard
  library, not to the repository. The spec gives the version token the form
  \<^verbatim>\<open>HTTP/major.minor\<close> and zero for a token that does not parse. As the library
  function does, the model takes one decimal digit on each side of the dot, and returns
  zeros with \<open>False\<close> for anything else.
\<close>

definition digit_val :: "char \<Rightarrow> nat option" where
  "digit_val c =
     (let n = (of_char c :: nat) in if 48 \<le> n \<and> n \<le> 57 then Some (n - 48) else None)"

fun go_ParseHTTPVersion :: "string \<Rightarrow> int \<times> int \<times> bool" where
  "go_ParseHTTPVersion [h, t1, t2, p, sl, a, dot, b] =
     (if [h, t1, t2, p, sl] = ''HTTP/'' \<and> dot = CHR ''.''
      then (case (digit_val a, digit_val b) of
              (Some m, Some n) \<Rightarrow> (int m, int n, True)
            | _ \<Rightarrow> (0, 0, False))
      else (0, 0, False))"
| "go_ParseHTTPVersion vers = (0, 0, False)"

text \<open>
  Modelled from the spec: \<^verbatim>\<open>ReadMIMEHeader\<close> of \<^verbatim>\<open>net/textproto\<close> belongs to the
  Go standard library, not to the repository. The spec describes the header block as
  sequential \<^verbatim>\<open>Name: value\<close> lines. The model reads lines up to the blank line,
  splits each at its first colon and trims the blanks around the value; a block that
  ends before the blank line gives \<^verbatim>\<open>io.EOF\<close>, a line without a colon an error.
  Header names are taken as they are written.
\<close>

definition is_blank :: "char \<Rightarrow> bool" where
  "is_blank c = (c = CHR '' '' \<or> c = CHR 0x09)"

definition trim :: "string \<Rightarrow> string" where
  "trim s = rev (dropWhile is_blank (rev (dropWhile is_blank s)))"

definition add_header :: "string \<Rightarrow> string \<Rightarrow> (string \<rightharpoonup> string list) \<Rightarrow> (string \<rightharpoonup> string list)" where
  "add_header k v m = m(k \<mapsto> (case m k of None \<Rightarrow> [] | Some vs \<Rightarrow> vs) @ [v])"

text \<open>A line without its line end: \<^verbatim>\<open>\n\<close> ends a line, a \<^verbatim>\<open>\r\<close> before it is dropped.\<close>

definition chomp :: "string \<Rightarrow> string" where
  "chomp l = (case rev l of [] \<Rightarrow> [] | c # cs \<Rightarrow> if c = CHR 0x0D then rev cs else l)"

text \<open>\<open>line\<close> holds the characters of the current line, last one first.\<close>

fun read_headers :: "string \<Rightarrow> string \<Rightarrow> (string \<rightharpoonup> string list) \<Rightarrow> (string \<rightharpoonup> string list) \<times> error option" where
  "read_headers [] line m = (m, Some EOF)"
| "read_headers (c # cs) line m =
     (if c = CHR 0x0A
      then (let l = chomp (rev line)
            in if l = [] then (m, None)
               else if CHR '':'' \<in> set l
               then read_headers cs []
                      (add_header (takeWhile (\<lambda>c. c \<noteq> CHR '':'') l)
                         (trim (tl (dropWhile (\<lambda>c. c \<noteq> CHR '':'') l))) m)
               else (m, Some (New ''malformed MIME header line'')))
      else read_headers cs (c # line) m)"

definition go_ReadMIMEHeader :: "string \<Rightarrow> (string \<rightharpoonup> string list) \<times> error option" where
  "go_ReadMIMEHeader s = read_headers s [] Map.empty"

definition go_stdlib :: stdlib where
  "go_stdlib = \<lparr>ReadMIMEHeader = go_ReadMIMEHeader, ParseHTTPVersion = go_ParseHTTPVersion\<rparr>"

section \<open>Reference points for the statements\<close>

text \<open>A handle that \<^verbatim>\<open>Send\<close> has been called on: \<open>ch\<close> is no longer nil.\<close>

definition used :: "Request \<Rightarrow> bool" where
  "used r = (case ch r of None \<Rightarrow> False | Some c \<Rightarrow> True)"

definition sent :: "world \<Rightarrow> nat \<Rightarrow> bool" where
  "sent w p = (case heap w p of None \<Rightarrow> False | Some r \<Rightarrow> used r)"

text \<open>The entry of the transport's map for a request pointer.\<close>

definition canceler :: "world \<Rightarrow> nat \<Rightarrow> nat option" where
  "canceler w rp = (case inflight (transport w) of None \<Rightarrow> None | Some m \<Rightarrow> m rp)"

text \<open>
  The outcome that the \<^verbatim>\<open>Send\<close> waiting on handle \<open>p\<close> gets from a schedule, told
  without the channel. \<open>pend\<close> lists the outcomes of the events that have fired on \<open>p\<close>
  and whose goroutines have not run yet. An event on \<open>p\<close> adds its natural outcome to
  \<open>pend\<close>; the first goroutine of \<open>p\<close> that runs hands its outcome to \<^verbatim>\<open>Send\<close>,
  and so does the first \<^verbatim>\<open>Abort\<close> that reaches \<open>p\<close>, with the aborted error.
\<close>

fun natural_outcome :: "xhr_event \<Rightarrow> error option" where
  "natural_outcome (LoadEvent st txt hs b) = None"
| "natural_outcome ErrorEvent = Some ErrFailure"
| "natural_outcome TimeoutEvent = Some ErrTimeout"

fun delivers :: "world \<Rightarrow> nat \<Rightarrow> error option list \<Rightarrow> action \<Rightarrow> error option option" where
  "delivers w p pend (Event q ev) = None"
| "delivers w p pend (Goroutine q i) = (if q = p \<and> i < length pend then Some (pend ! i) else None)"
| "delivers w p pend (AbortCall q) = (if q = p then Some (Some ErrAborted) else None)"
| "delivers w p pend (CancelRequestCall rq) =
     (if canceler w rq = Some p then Some (Some ErrAborted) else None)"

fun pending :: "nat \<Rightarrow> error option list \<Rightarrow> action \<Rightarrow> error option list" where
  "pending p pend (Event q ev) = (if q = p then pend @ [natural_outcome ev] else pend)"
| "pending p pend a = pend"

fun first_outcome :: "world \<Rightarrow> nat \<Rightarrow> error option list \<Rightarrow> action list \<Rightarrow> error option option" where
  "first_outcome w p pend [] = None"
| "first_outcome w p pend (a # as) =
     (case delivers w p pend a of
        Some v \<Rightarrow> Some v
      | None \<Rightarrow> first_outcome w p (pending p pend a) as)"

text \<open>The \<^verbatim>\<open>SetRequestHeader\<close> calls of a call log, and the pairs a header map
  stands for.\<close>

fun attached :: "js_call list \<Rightarrow> (string \<times> string) list" where
  "attached [] = []"
| "attached (JsSetRequestHeader k v # cs) = (k, v) # attached cs"
| "attached (c # cs) = attached cs"

definition attached_at :: "world \<Rightarrow> nat \<Rightarrow> (string \<times> string) list option" where
  "attached_at w p = map_option (\<lambda>r. attached (calls r)) (heap w p)"

definition header_pairs :: "(string \<times> string list) list \<Rightarrow> (string \<times> string) list" where
  "header_pairs hdr = concat (map (\<lambda>(k, vs). map (Pair k) vs) hdr)"

definition world0 :: world where
  "world0 = \<lparr>transport = \<lparr>inflight = None\<rparr>, heap = Map.empty, fresh = 0, io_log = []\<rparr>"

text \<open>
  A handle on which \<^verbatim>\<open>Send\<close> has not been called: no channel, no listeners, no
  goroutines. A handle whose \<^verbatim>\<open>Send\<close> waits with nothing delivered yet: the three
  listeners, and an empty channel of capacity one.
\<close>

definition unsent :: "world \<Rightarrow> nat \<Rightarrow> bool" where
  "unsent w p =
     (case heap w p of
        None \<Rightarrow> False
      | Some r \<Rightarrow> \<not> used r \<and> listeners r = [] \<and> spawned r = [])"

definition idle :: "Request \<Rightarrow> bool" where
  "idle r =
     (listeners r = [(''load'', None), (''error'', Some ErrFailure), (''timeout'', Some ErrTimeout)] \<and>
      (case ch r of None \<Rightarrow> False | Some c \<Rightarrow> cap c = 1 \<and> buf c = [] \<and> sendq c = []))"

definition waiting :: "world \<Rightarrow> nat \<Rightarrow> error option list \<Rightarrow> bool" where
  "waiting w p pend = (case heap w p of None \<Rightarrow> False | Some r \<Rightarrow> idle r \<and> spawned r = pend)"

section \<open>A concrete exchange\<close>

definition crlf :: string where
  "crlf = [CHR 0x0D, CHR 0x0A]"

definition req0 :: http_Request where
  "req0 = \<lparr>Method = ''GET'', URL = ''http://example.test/ok'', Host = [],
           Header = [(''Accept'', [''text/plain'', ''text/html'']), (''X-Id'', [''7''])],
           Body = None\<rparr>"

definition hdrs0 :: string where
  "hdrs0 = ''Version: HTTP/1.1'' @ crlf @ ''Content-Type: application/json'' @ crlf @ crlf"

definition load0 :: xhr_event where
  "load0 = LoadEvent 200 ''OK'' hdrs0 ''hello''"

text \<open>The world after \<^verbatim>\<open>NewRequest\<close>: one fresh handle, at pointer 0.\<close>

definition world1 :: world where
  "world1 = snd (NewRequest world0 ''GET'' ''http://example.test/ok'')"

section \<open>Lemmas about the handle\<close>


subsection \<open>A used handle stays used\<close>

lemma used_go_func: "used (go_func v r) = used r"
  by (simp add: go_func_def used_def)

lemma used_run_goroutine: "used (run_goroutine i r) = used r"
  by (simp add: run_goroutine_def used_def split: option.splits)

lemma used_listeners:
  "used (foldl (\<lambda>r' (nm, v). if nm = n then go_func v r' else r') r0 ls) = used r0"
  by (induction ls arbitrary: r0) (simp_all add: used_go_func split: prod.splits)

lemma used_fire: "used (fire ev r) = used r"
proof -
  have "used (browser_set ev r) = used r" by (cases ev) (simp_all add: used_def)
  then show ?thesis by (simp add: fire_def used_listeners)
qed

lemma used_Abort: "used (Abort r) = used r"
  by (simp add: Abort_def js_abort_def used_def split: option.splits)

lemma sent_on_xhr: "(\<And>r. used (f r) = used r) \<Longrightarrow> sent (on_xhr q f w) p = sent w p"
  by (simp add: sent_def on_xhr_def split: option.splits)

lemma sent_env_step: "sent (env_step a w) p = sent w p"
  by (cases a)
     (simp_all add: sent_on_xhr used_fire used_Abort used_run_goroutine CancelRequest_def
        split: option.splits)

lemma sent_recv: "sent (fst (recv p s)) q = sent (fst s) q"
  by (simp add: recv_def sent_def used_def split: prod.splits option.splits)

lemma sent_parked: "sent (fst (parked p sched s)) q = sent (fst s) q"
  by (induction sched arbitrary: s) (simp_all add: sent_recv sent_env_step)

lemma sent_fold: "sent (fold env_step acts w) p = sent w p"
  by (induction acts arbitrary: w) (simp_all add: sent_env_step)

lemma Send_unfold:
  assumes "heap w p = Some r" and "Send_dispatch r d = Inr r'"
    and "parked p sched (recv p (w\<lparr>heap := (heap w)(p \<mapsto> r')\<rparr>, None)) = (w2, g)"
  shows "Send w p d sched = (w2, case g of None \<Rightarrow> Blocks | Some v \<Rightarrow> Returns v)"
  using assms by (cases g) (simp_all add: Send_def)

lemma Send_cases:
  obtains (nil) "heap w p = None" "Send w p d sched = (w, Panics ''invalid memory address or nil pointer dereference'')"
  | (reused) r where "heap w p = Some r" "used r"
      "Send w p d sched = (w, Panics ''must not use a Request for multiple requests'')"
  | (waits) r r' w2 g where "heap w p = Some r" "\<not> used r" "Send_dispatch r d = Inr r'"
      "parked p sched (recv p (w\<lparr>heap := (heap w)(p \<mapsto> r')\<rparr>, None)) = (w2, g)"
      "Send w p d sched = (w2, case g of None \<Rightarrow> Blocks | Some v \<Rightarrow> Returns v)"
proof (cases "heap w p")
  case None
  then have "Send w p d sched = (w, Panics ''invalid memory address or nil pointer dereference'')"
    by (simp add: Send_def)
  with None show ?thesis by (rule nil)
next
  case (Some r)
  show ?thesis
  proof (cases "used r")
    case True
    then have "Send_dispatch r d = Inl ''must not use a Request for multiple requests''"
      by (simp add: Send_dispatch_def used_def split: option.splits)
    with Some have "Send w p d sched = (w, Panics ''must not use a Request for multiple requests'')"
      by (simp add: Send_def)
    with Some True show ?thesis by (rule reused)
  next
    case False
    then obtain r' where d: "Send_dispatch r d = Inr r'"
      by (simp add: Send_dispatch_def used_def split: option.splits)
    obtain w2 g where pk: "parked p sched (recv p (w\<lparr>heap := (heap w)(p \<mapsto> r')\<rparr>, None)) = (w2, g)"
      by (cases "parked p sched (recv p (w\<lparr>heap := (heap w)(p \<mapsto> r')\<rparr>, None))")
    from Some False d pk Send_unfold [OF Some d pk] show ?thesis by (rule waits)
  qed
qed

lemma used_dispatch: "Send_dispatch r d = Inr r' \<Longrightarrow> used r'"
  by (auto simp: Send_dispatch_def used_def split: if_splits)

lemma Send_sent:
  assumes "Send w p d sched = (w', c)" and "\<forall>msg. c \<noteq> Panics msg"
  shows "sent w' p"
proof (cases rule: Send_cases [of w p d sched])
  case nil
  with assms show ?thesis by auto
next
  case (reused r)
  with assms show ?thesis by auto
next
  case (waits r r' w2 g)
  let ?w1 = "w\<lparr>heap := (heap w)(p \<mapsto> r')\<rparr>"
  from waits(3) have "used r'" by (rule used_dispatch)
  then have "sent ?w1 p" by (simp add: sent_def)
  then have "sent (fst (parked p sched (recv p (?w1, None)))) p"
    by (simp add: sent_parked sent_recv)
  with waits(4) have "sent w2 p" by simp
  with waits(5) assms(1) show ?thesis by simp
qed

lemma Send_again:
  assumes "sent w p"
  shows "Send w p d sched = (w, Panics ''must not use a Request for multiple requests'')"
  using assms by (auto simp: sent_def used_def Send_def Send_dispatch_def split: option.splits)

subsection \<open>The transport does not change while a Send is blocked\<close>

lemma transport_on_xhr: "transport (on_xhr q f w) = transport w"
  by (simp add: on_xhr_def split: option.splits)

lemma transport_env_step: "transport (env_step a w) = transport w"
  by (cases a) (simp_all add: transport_on_xhr CancelRequest_def split: option.splits)

lemma transport_recv: "transport (fst (recv p s)) = transport (fst s)"
  by (simp add: recv_def split: prod.splits option.splits)

lemma transport_parked: "transport (fst (parked p sched s)) = transport (fst s)"
  by (induction sched arbitrary: s) (simp_all add: transport_recv transport_env_step)

lemma transport_Send: "transport (fst (Send w p d sched)) = transport w"
proof (cases rule: Send_cases [of w p d sched])
  case nil
  then show ?thesis by simp
next
  case (reused r)
  then show ?thesis by simp
next
  case (waits r r' w2 g)
  have "transport (fst (parked p sched (recv p (w\<lparr>heap := (heap w)(p \<mapsto> r')\<rparr>, None)))) = transport w"
    by (simp add: transport_parked transport_recv)
  with waits(4,5) show ?thesis by simp
qed

lemma canceler_cong: "transport w' = transport w \<Longrightarrow> canceler w' rq = canceler w rq"
  by (simp add: canceler_def)

lemma delivers_cong: "transport w' = transport w \<Longrightarrow> delivers w' p pend a = delivers w p pend a"
  by (cases a) (simp_all add: canceler_cong [of w' w])

lemma first_outcome_cong:
  "transport w' = transport w \<Longrightarrow> first_outcome w' p pend sched = first_outcome w p pend sched"
  by (induction sched arbitrary: pend) (simp_all add: delivers_cong [of w' w] split: option.splits)

subsection \<open>The blocked Send takes the first outcome\<close>

lemma waitingE:
  assumes "waiting w p pend"
  obtains r where "heap w p = Some r" and "idle r" and "spawned r = pend"
  using assms by (auto simp: waiting_def split: option.splits)

lemma waitingI: "heap w p = Some r \<Longrightarrow> idle r \<Longrightarrow> spawned r = pend \<Longrightarrow> waiting w p pend"
  by (simp add: waiting_def)

lemma idleE:
  assumes "idle r"
  obtains c where "ch r = Some c" and "cap c = 1" and "buf c = []" and "sendq c = []"
    and "listeners r = [(''load'', None), (''error'', Some ErrFailure), (''timeout'', Some ErrTimeout)]"
  using assms by (auto simp: idle_def split: option.splits)

lemma fire_listening:
  assumes "listeners r = [(''load'', None), (''error'', Some ErrFailure), (''timeout'', Some ErrTimeout)]"
  shows "fire ev r = go_func (natural_outcome ev) (browser_set ev r)"
  using assms by (cases ev) (simp_all add: fire_def)

lemma browser_set_keeps:
  "ch (browser_set ev r) = ch r" "listeners (browser_set ev r) = listeners r"
  "spawned (browser_set ev r) = spawned r" "calls (browser_set ev r) = calls r"
  by (cases ev; simp)+

lemma fire_idle:
  assumes "idle r"
  shows "idle (fire ev r) \<and> spawned (fire ev r) = spawned r @ [natural_outcome ev]"
proof -
  from assms obtain c where
    l: "listeners r = [(''load'', None), (''error'', Some ErrFailure), (''timeout'', Some ErrTimeout)]"
    by (rule idleE)
  from assms show ?thesis
    by (simp add: fire_listening [OF l] go_func_def idle_def browser_set_keeps)
qed

lemma run_goroutine_idle:
  assumes "idle r" and "i < length (spawned r)"
  shows "\<exists>c. ch (run_goroutine i r) = Some c \<and> buf c = [spawned r ! i]"
proof -
  from assms(1) obtain c where c: "ch r = Some c" "cap c = 1" "buf c = []"
    by (rule idleE)
  with assms(2) show ?thesis by (simp add: run_goroutine_def chan_send_def)
qed

lemma run_goroutine_none: "\<not> i < length (spawned r) \<Longrightarrow> run_goroutine i r = r"
  by (simp add: run_goroutine_def)

lemma Abort_idle:
  assumes "idle r"
  shows "\<exists>c. ch (Abort r) = Some c \<and> buf c = [Some ErrAborted]"
proof -
  from assms obtain c where c: "ch r = Some c" "cap c = 1" "buf c = []"
    by (rule idleE)
  then show ?thesis by (simp add: Abort_def js_abort_def chan_try_send_def)
qed

lemma recv_hit:
  assumes "heap w p = Some r" and "ch r = Some c" and "buf c = v # vs"
  shows "snd (recv p (w, None)) = Some v"
  using assms by (simp add: recv_def chan_recv_def)

lemma recv_miss:
  assumes "heap w p = Some r" and "ch r = Some c" and "buf c = []"
  shows "recv p (w, None) = (w, None)"
  using assms by (simp add: recv_def chan_recv_def)

lemma heap_on_xhr_same: "heap w p = Some r \<Longrightarrow> heap (on_xhr p f w) p = Some (f r)"
  by (simp add: on_xhr_def)

lemma heap_on_xhr_other: "q \<noteq> p \<Longrightarrow> heap (on_xhr q f w) p = heap w p"
  by (simp add: on_xhr_def split: option.splits)

lemma parked_got: "snd (parked p sched (w, Some v)) = Some v"
  by (induction sched arbitrary: w) (simp_all add: recv_def)

lemma CancelRequest_cases:
  "CancelRequest w rq = (case canceler w rq of None \<Rightarrow> w | Some xp \<Rightarrow> on_xhr xp Abort w)"
  by (simp add: CancelRequest_def canceler_def split: option.splits)

lemma step_other_heap:
  assumes "waiting w p pend" and "delivers w p pend a = None"
  shows "\<exists>r. heap (env_step a w) p = Some r \<and> idle r \<and> spawned r = pending p pend a"
proof -
  from assms(1) obtain r where r: "heap w p = Some r" "idle r" "spawned r = pend"
    by (rule waitingE)
  show ?thesis
  proof (cases a)
    case (Event q ev)
    show ?thesis
    proof (cases "q = p")
      case True
      with Event r fire_idle [OF r(2), of ev] show ?thesis by (simp add: heap_on_xhr_same)
    next
      case False
      with Event r show ?thesis by (simp add: heap_on_xhr_other)
    qed
  next
    case (Goroutine q i)
    show ?thesis
    proof (cases "q = p")
      case True
      with Goroutine assms(2) r have "\<not> i < length (spawned r)" by (simp split: if_splits)
      then have "run_goroutine i r = r" by (rule run_goroutine_none)
      with True Goroutine r show ?thesis by (simp add: heap_on_xhr_same)
    next
      case False
      with Goroutine r show ?thesis by (simp add: heap_on_xhr_other)
    qed
  next
    case (CancelRequestCall rq)
    with assms(2) r show ?thesis
      by (cases "canceler w rq") (auto simp: CancelRequest_cases heap_on_xhr_other split: if_splits)
  next
    case (AbortCall q)
    with assms(2) r show ?thesis by (auto simp: heap_on_xhr_other split: if_splits)
  qed
qed

lemma step_other:
  assumes "waiting w p pend" and "delivers w p pend a = None"
  shows "recv p (env_step a w, None) = (env_step a w, None) \<and>
         waiting (env_step a w) p (pending p pend a)"
proof -
  from step_other_heap [OF assms] obtain r where
    r: "heap (env_step a w) p = Some r" "idle r" "spawned r = pending p pend a" by blast
  from r(2) obtain c where c: "ch r = Some c" "buf c = []" by (rule idleE)
  from r(1) c have "recv p (env_step a w, None) = (env_step a w, None)" by (rule recv_miss)
  moreover from r have "waiting (env_step a w) p (pending p pend a)" by (rule waitingI)
  ultimately show ?thesis by simp
qed

lemma step_hit_heap:
  assumes "waiting w p pend" and "delivers w p pend a = Some v"
  shows "\<exists>r c. heap (env_step a w) p = Some r \<and> ch r = Some c \<and> buf c = [v]"
proof -
  from assms(1) obtain r where r: "heap w p = Some r" "idle r" "spawned r = pend"
    by (rule waitingE)
  show ?thesis
  proof (cases a)
    case (Event q ev)
    with assms(2) show ?thesis by simp
  next
    case (Goroutine q i)
    with assms(2) have "q = p" "i < length pend" "v = pend ! i" by (simp_all split: if_splits)
    with Goroutine r run_goroutine_idle [OF r(2), of i] show ?thesis
      by (simp add: heap_on_xhr_same)
  next
    case (CancelRequestCall rq)
    with assms(2) have "canceler w rq = Some p" "v = Some ErrAborted" by (simp_all split: if_splits)
    with CancelRequestCall r Abort_idle [OF r(2)] show ?thesis
      by (simp add: CancelRequest_cases heap_on_xhr_same)
  next
    case (AbortCall q)
    with assms(2) have "q = p" "v = Some ErrAborted" by (simp_all split: if_splits)
    with AbortCall r Abort_idle [OF r(2)] show ?thesis
      by (simp add: heap_on_xhr_same)
  qed
qed

lemma step_hit:
  assumes "waiting w p pend" and "delivers w p pend a = Some v"
  shows "snd (recv p (env_step a w, None)) = Some v"
proof -
  from step_hit_heap [OF assms] obtain r c
    where "heap (env_step a w) p = Some r" "ch r = Some c" "buf c = [v]" by blast
  then show ?thesis by (rule recv_hit)
qed

lemma parked_first_outcome:
  "waiting w p pend \<Longrightarrow> snd (parked p sched (w, None)) = first_outcome w p pend sched"
proof (induction sched arbitrary: w pend)
  case Nil
  then show ?case by simp
next
  case (Cons a as)
  show ?case
  proof (cases "delivers w p pend a")
    case None
    with Cons.prems have r: "recv p (env_step a w, None) = (env_step a w, None)"
      and w: "waiting (env_step a w) p (pending p pend a)"
      using step_other by blast+
    have "first_outcome (env_step a w) p (pending p pend a) as =
          first_outcome w p (pending p pend a) as"
      by (rule first_outcome_cong) (rule transport_env_step)
    with Cons.IH [OF w] r None show ?thesis by simp
  next
    case (Some v)
    with Cons.prems have "snd (recv p (env_step a w, None)) = Some v"
      by (rule step_hit)
    then obtain w' where "recv p (env_step a w, None) = (w', Some v)"
      by (cases "recv p (env_step a w, None)") simp
    with Some show ?thesis by (simp add: parked_got)
  qed
qed

lemma Send_outcome:
  assumes "unsent w p"
  shows "snd (Send w p d sched) =
           (case first_outcome w p [] sched of None \<Rightarrow> Blocks | Some v \<Rightarrow> Returns v)"
proof -
  from assms obtain r where r: "heap w p = Some r" "ch r = None" "listeners r = []" "spawned r = []"
    by (auto simp: unsent_def used_def split: option.splits)
  define r' where "r' = r\<lparr>ch := Some (make_chan 1),
       listeners := listeners r @ [(''load'', None), (''error'', Some ErrFailure), (''timeout'', Some ErrTimeout)],
       calls := calls r @ [JsSend d]\<rparr>"
  let ?w1 = "w\<lparr>heap := (heap w)(p \<mapsto> r')\<rparr>"
  have d: "Send_dispatch r d = Inr r'" using r by (simp add: Send_dispatch_def r'_def)
  have w1: "waiting ?w1 p []" using r by (simp add: waiting_def idle_def r'_def make_chan_def)
  have rc: "recv p (?w1, None) = (?w1, None)"
    by (rule recv_miss [where r = r' and c = "make_chan 1"]) (simp_all add: r'_def make_chan_def)
  have "snd (parked p sched (?w1, None)) = first_outcome ?w1 p [] sched"
    using w1 by (rule parked_first_outcome)
  also have "\<dots> = first_outcome w p [] sched"
    by (rule first_outcome_cong) simp
  finally have "snd (parked p sched (recv p (?w1, None))) = first_outcome w p [] sched"
    using rc by simp
  moreover obtain w2 g where pk: "parked p sched (recv p (?w1, None)) = (w2, g)"
    by (cases "parked p sched (recv p (?w1, None))")
  ultimately have g: "g = first_outcome w p [] sched" by simp
  from Send_unfold [OF r(1) d pk] g show ?thesis by simp
qed

subsection \<open>Outcomes of a schedule\<close>

lemma unsent_world1: "unsent world1 0"
  by (simp add: unsent_def world1_def NewRequest_def world0_def new_XMLHttpRequest_def used_def)

lemma first_outcome_append:
  "first_outcome w p pend sched = Some v \<Longrightarrow> first_outcome w p pend (sched @ later) = Some v"
  by (induction sched arbitrary: pend) (simp_all split: option.splits)

lemma delivers_abort:
  "delivers w p pend (AbortCall p) = Some (Some ErrAborted)"
  by simp

lemma first_outcome_hit:
  "AbortCall p \<in> set sched \<Longrightarrow> \<exists>v. first_outcome w p pend sched = Some v"
proof (induction sched arbitrary: pend)
  case Nil
  then show ?case by simp
next
  case (Cons a as)
  show ?case
  proof (cases "delivers w p pend a")
    case None
    with Cons.prems have "AbortCall p \<in> set as" by auto
    from Cons.IH [OF this, of "pending p pend a"] None show ?thesis by simp
  next
    case (Some u)
    then show ?thesis by simp
  qed
qed

lemma delivers_origin:
  "delivers w p pend a = Some v \<Longrightarrow> v = Some ErrAborted \<or> v \<in> set pend"
  by (cases a) (auto split: if_splits)

lemma pending_origin:
  "v \<in> set (pending p pend a) \<Longrightarrow> v \<in> set pend \<or> (\<exists>ev. a = Event p ev \<and> v = natural_outcome ev)"
  by (cases a) (auto split: if_splits)

lemma first_outcome_origin:
  "first_outcome w p pend sched = Some v \<Longrightarrow>
     v = Some ErrAborted \<or> v \<in> set pend \<or> (\<exists>ev. Event p ev \<in> set sched \<and> v = natural_outcome ev)"
proof (induction sched arbitrary: pend)
  case Nil
  then show ?case by simp
next
  case (Cons a as)
  show ?case
  proof (cases "delivers w p pend a")
    case None
    with Cons.prems have "first_outcome w p (pending p pend a) as = Some v" by simp
    from Cons.IH [OF this] pending_origin [of v p pend a] show ?thesis by auto
  next
    case (Some u)
    with Cons.prems have "u = v" by simp
    with Some delivers_origin [of w p pend a v] show ?thesis by auto
  qed
qed

lemma Send_returns:
  assumes "unsent w p" and "first_outcome w p [] sched = Some v"
  shows "Send w p d sched = (fst (Send w p d sched), Returns v)"
  using Send_outcome [OF assms(1), of d sched] assms(2) by (simp add: prod_eq_iff)

lemma Send_single_load:
  assumes "heap w p = Some r" and "ch r = None" and "listeners r = []" and "spawned r = []"
  shows "\<exists>w' r'. Send w p d [Event p (LoadEvent st txt hs b), Goroutine p 0] = (w', Returns None) \<and>
           heap w' p = Some r' \<and> Status r' = st \<and> Response r' = Some b"
  using assms
  by (simp add: Send_def Send_dispatch_def recv_def chan_recv_def make_chan_def on_xhr_def
        fire_def go_func_def run_goroutine_def chan_send_def)

section \<open>The claims about the handle\<close>

text \<open>
  C1. A handle is single-use. Once a \<^verbatim>\<open>Send\<close> on the handle at \<open>p\<close> has got past its
  check (it returned, or it is still blocked), every later \<^verbatim>\<open>Send\<close> on that handle
  panics with the message of the programming error, whatever events, goroutines, aborts
  and cancellations \<open>acts\<close> happened in between; the world is returned as it was, so
  nothing is dispatched a second time. \<^verbatim>\<open>Open\<close> of the earlier revision panics in the
  same way.
\<close>

theorem Send_twice_panics:
  assumes "Send w p d sched = (w1, c)" and "\<forall>msg. c \<noteq> Panics msg"
  shows "Send (fold env_step acts w1) p d' sched' =
           (fold env_step acts w1, Panics ''must not use a Request for multiple requests'') \<and>
         (\<exists>r. heap (fold env_step acts w1) p = Some r \<and>
              Open r method url user password = Inl ''must not use a Request for multiple requests'')"
proof -
  from assms have "sent w1 p" by (rule Send_sent)
  then have s: "sent (fold env_step acts w1) p" by (simp add: sent_fold)
  then have "Send (fold env_step acts w1) p d' sched' =
      (fold env_step acts w1, Panics ''must not use a Request for multiple requests'')"
    by (rule Send_again)
  moreover from s obtain r where "heap (fold env_step acts w1) p = Some r" and "used r"
    by (auto simp: sent_def split: option.splits)
  moreover from \<open>used r\<close> have "Open r method url user password = Inl ''must not use a Request for multiple requests''"
    by (simp add: Open_def used_def split: option.splits)
  ultimately show ?thesis by simp
qed

theorem Send_twice_panics_witness:
  "snd (Send world1 0 NoData [Event 0 load0, Goroutine 0 0]) = Returns None \<and>
   Send (fold env_step [AbortCall 0] (fst (Send world1 0 NoData [Event 0 load0, Goroutine 0 0]))) 0
        (StringData ''again'') [Event 0 load0, Goroutine 0 0] =
     (fold env_step [AbortCall 0] (fst (Send world1 0 NoData [Event 0 load0, Goroutine 0 0])),
      Panics ''must not use a Request for multiple requests'')"
proof -
  have 1: "Send world1 0 NoData [Event 0 load0, Goroutine 0 0] =
             (fst (Send world1 0 NoData [Event 0 load0, Goroutine 0 0]), Returns None)"
    by (rule Send_returns [OF unsent_world1]) (simp add: load0_def)
  have 2: "\<forall>msg. Returns (None :: error option) \<noteq> Panics msg" by simp
  from Send_twice_panics [OF 1 2, of "[AbortCall 0]" "StringData ''again''"
    "[Event 0 load0, Goroutine 0 0]"] 1
  show ?thesis by (simp add: prod_eq_iff)
qed

text \<open>
  C2. When \<^verbatim>\<open>Abort\<close> is called on the handle while its \<^verbatim>\<open>Send\<close> is blocked, the
  \<^verbatim>\<open>Send\<close> returns, and it returns exactly the first outcome of the schedule: the
  aborted error, or the natural outcome of an event that fired on the handle. Whatever
  happens later (\<open>later\<close>, a late abort included) leaves that outcome as it is. The write
  of \<^verbatim>\<open>Abort\<close> does not block: on a channel whose slot is filled it changes nothing.
\<close>

theorem Abort_during_Send:
  assumes "unsent w p" and "AbortCall p \<in> set sched"
  shows "\<exists>w' v. Send w p d sched = (w', Returns v) \<and>
           first_outcome w p [] sched = Some v \<and>
           (v = Some ErrAborted \<or> (\<exists>ev. Event p ev \<in> set sched \<and> v = natural_outcome ev)) \<and>
           snd (Send w p d (sched @ later)) = Returns v \<and>
           ch (Abort (r\<lparr>ch := Some \<lparr>cap = 1, buf = [u], sendq = q\<rparr>\<rparr>)) =
             Some \<lparr>cap = 1, buf = [u], sendq = q\<rparr>"
proof -
  from assms(2) obtain v where v: "first_outcome w p [] sched = Some v"
    using first_outcome_hit by blast
  have 1: "Send w p d sched = (fst (Send w p d sched), Returns v)"
    using assms(1) v by (rule Send_returns)
  have 2: "v = Some ErrAborted \<or> (\<exists>ev. Event p ev \<in> set sched \<and> v = natural_outcome ev)"
    using first_outcome_origin [OF v] by simp
  have "first_outcome w p [] (sched @ later) = Some v"
    using v by (rule first_outcome_append)
  then have 3: "snd (Send w p d (sched @ later)) = Returns v"
    by (simp add: Send_outcome [OF assms(1)])
  have 4: "ch (Abort (r\<lparr>ch := Some \<lparr>cap = 1, buf = [u], sendq = q\<rparr>\<rparr>)) =
             Some \<lparr>cap = 1, buf = [u], sendq = q\<rparr>"
    by (simp add: Abort_def js_abort_def chan_try_send_def)
  from 1 v 2 3 4 show ?thesis by blast
qed

theorem Abort_during_Send_witness:
  "unsent world1 0 \<and>
   AbortCall 0 \<in> set [Event 0 load0, AbortCall 0, Goroutine 0 0, AbortCall 0] \<and>
   snd (Send world1 0 NoData [Event 0 load0, AbortCall 0, Goroutine 0 0, AbortCall 0]) =
     Returns (Some ErrAborted) \<and>
   AbortCall 0 \<in> set [Event 0 load0, Goroutine 0 0, AbortCall 0] \<and>
   snd (Send world1 0 NoData [Event 0 load0, Goroutine 0 0, AbortCall 0]) = Returns None"
proof -
  have m: "AbortCall 0 \<in> set [Event 0 load0, AbortCall 0, Goroutine 0 0, AbortCall 0]" by simp
  have n: "AbortCall 0 \<in> set [Event 0 load0, Goroutine 0 0, AbortCall 0]" by simp
  from Abort_during_Send [OF unsent_world1 m, of NoData]
  obtain w' v where
    "Send world1 0 NoData [Event 0 load0, AbortCall 0, Goroutine 0 0, AbortCall 0] = (w', Returns v)"
    and "first_outcome world1 0 [] [Event 0 load0, AbortCall 0, Goroutine 0 0, AbortCall 0] = Some v"
    by blast
  then have 1: "snd (Send world1 0 NoData [Event 0 load0, AbortCall 0, Goroutine 0 0, AbortCall 0]) =
     Returns (Some ErrAborted)" by simp
  from Abort_during_Send [OF unsent_world1 n, of NoData]
  obtain w'' v' where
    "Send world1 0 NoData [Event 0 load0, Goroutine 0 0, AbortCall 0] = (w'', Returns v')"
    and "first_outcome world1 0 [] [Event 0 load0, Goroutine 0 0, AbortCall 0] = Some v'"
    by blast
  then have 2: "snd (Send world1 0 NoData [Event 0 load0, Goroutine 0 0, AbortCall 0]) = Returns None"
    by (simp add: load0_def)
  from 1 2 unsent_world1 show ?thesis by simp
qed

text \<open>
  C6. When the load event fires and its listener's goroutine runs, \<^verbatim>\<open>Send\<close> returns
  nil whatever the status code is, and the status and the payload are readable on the
  handle afterwards; the error event gives \<^verbatim>\<open>ErrFailure\<close>, the timeout event the
  different error \<^verbatim>\<open>ErrTimeout\<close>; of the events, only a load event gives nil.
\<close>

theorem Send_outcome_of_event:
  assumes "unsent w p"
  shows "snd (Send w p d (Event p (LoadEvent st txt hs b) # Goroutine p 0 # rest)) = Returns None \<and>
         snd (Send w p d (Event p ErrorEvent # Goroutine p 0 # rest)) = Returns (Some ErrFailure) \<and>
         snd (Send w p d (Event p TimeoutEvent # Goroutine p 0 # rest)) = Returns (Some ErrTimeout) \<and>
         Some ErrTimeout \<noteq> Some ErrFailure \<and>
         (snd (Send w p d (Event p ev # Goroutine p 0 # rest)) = Returns None) =
           (\<exists>st' txt' hs' b'. ev = LoadEvent st' txt' hs' b') \<and>
         (\<exists>w' r'. Send w p d [Event p (LoadEvent st txt hs b), Goroutine p 0] = (w', Returns None) \<and>
            heap w' p = Some r' \<and> Status r' = st \<and> Response r' = Some b)"
proof -
  have ev: "snd (Send w p d (Event p e # Goroutine p 0 # rest)) = Returns (natural_outcome e)" for e
    by (simp add: Send_outcome [OF assms])
  have "(natural_outcome ev = None) = (\<exists>st' txt' hs' b'. ev = LoadEvent st' txt' hs' b')"
    by (cases ev) simp_all
  moreover from assms obtain r where
    "heap w p = Some r" "ch r = None" "listeners r = []" "spawned r = []"
    by (auto simp: unsent_def used_def split: option.splits)
  then have "\<exists>w' r'. Send w p d [Event p (LoadEvent st txt hs b), Goroutine p 0] = (w', Returns None) \<and>
            heap w' p = Some r' \<and> Status r' = st \<and> Response r' = Some b"
    by (rule Send_single_load)
  ultimately show ?thesis by (simp add: ev)
qed

theorem Send_outcome_of_event_witness:
  "unsent world1 0 \<and>
   snd (Send world1 0 NoData [Event 0 (LoadEvent 404 ''Not Found'' [] []), Goroutine 0 0]) =
     Returns None \<and>
   snd (Send world1 0 NoData [Event 0 (LoadEvent 500 ''Internal Server Error'' [] []), Goroutine 0 0]) =
     Returns None \<and>
   snd (Send world1 0 NoData [Event 0 ErrorEvent, Goroutine 0 0]) = Returns (Some ErrFailure) \<and>
   snd (Send world1 0 NoData [Event 0 TimeoutEvent, Goroutine 0 0]) = Returns (Some ErrTimeout)"
  using Send_outcome_of_event [OF unsent_world1, of NoData 404 "''Not Found''" "[]" "[]" "[]"]
        Send_outcome_of_event [OF unsent_world1, of NoData 500 "''Internal Server Error''" "[]" "[]" "[]"]
        unsent_world1
  by simp

text \<open>
  C8, as stated, fails: after a \<^verbatim>\<open>Send\<close> that has returned no send is outstanding, and
  \<^verbatim>\<open>Abort\<close> still calls \<^verbatim>\<open>abort\<close> on the underlying object. The guard of
  \<^verbatim>\<open>Abort\<close> is \<^verbatim>\<open>r.ch == nil\<close>, which only holds before \<^verbatim>\<open>Send\<close>.
\<close>

theorem Abort_after_Send_counterexample:
  "snd (Send world1 0 NoData [Event 0 load0, Goroutine 0 0]) = Returns None \<and>
   map_option calls (heap (fst (Send world1 0 NoData [Event 0 load0, Goroutine 0 0])) 0) =
     Some [JsOpen ''GET'' ''http://example.test/ok'' None, JsSend NoData] \<and>
   map_option calls
     (heap (env_step (AbortCall 0) (fst (Send world1 0 NoData [Event 0 load0, Goroutine 0 0]))) 0) =
     Some [JsOpen ''GET'' ''http://example.test/ok'' None, JsSend NoData, JsAbort]"
  by (simp add: world1_def world0_def NewRequest_def new_XMLHttpRequest_def load0_def
        Send_def Send_dispatch_def recv_def chan_recv_def make_chan_def on_xhr_def
        fire_def go_func_def run_goroutine_def chan_send_def Abort_def js_abort_def
        chan_try_send_def)

text \<open>
  C8, amended. On a handle on which \<^verbatim>\<open>Send\<close> has never been called, \<^verbatim>\<open>Abort\<close> is a
  no-op: the world and the handle are unchanged (no call on the underlying object), a
  subsequent \<^verbatim>\<open>Send\<close> behaves as without it, and it returns on the first outcome.
\<close>

theorem Abort_before_Send_noop:
  assumes "unsent w p"
  shows "env_step (AbortCall p) w = w \<and>
         (\<exists>r. heap w p = Some r \<and> Abort r = r) \<and>
         Send (env_step (AbortCall p) w) p d sched = Send w p d sched \<and>
         snd (Send (env_step (AbortCall p) w) p d (Event p ev # Goroutine p 0 # rest)) =
           Returns (natural_outcome ev)"
proof -
  from assms obtain r where r: "heap w p = Some r" "ch r = None"
    by (auto simp: unsent_def used_def split: option.splits)
  then have a: "Abort r = r" by (simp add: Abort_def)
  with r have e: "env_step (AbortCall p) w = w" by (simp add: on_xhr_def map_upd_triv)
  have "snd (Send w p d (Event p ev # Goroutine p 0 # rest)) = Returns (natural_outcome ev)"
    by (simp add: Send_outcome [OF assms])
  with r a e show ?thesis by simp
qed

theorem Abort_before_Send_noop_witness:
  "unsent world1 0 \<and> env_step (AbortCall 0) world1 = world1 \<and>
   snd (Send (env_step (AbortCall 0) world1) 0 NoData [Event 0 load0, Goroutine 0 0]) = Returns None"
proof -
  note n = Abort_before_Send_noop [OF unsent_world1, of NoData "[]" load0 "[]"]
  from n have "env_step (AbortCall 0) world1 = world1" by (rule conjunct1)
  moreover from n have "snd (Send (env_step (AbortCall 0) world1) 0 NoData [Event 0 load0, Goroutine 0 0]) =
      Returns (natural_outcome load0)" by (elim conjE)
  ultimately show ?thesis using unsent_world1 by (simp add: load0_def)
qed

section \<open>Lemmas about RoundTrip\<close>

lemmas model_defs =
  RoundTrip_def RoundTrip_setup_def NewRequest_def on_xhr_def forward_headers_def
  SetRequestHeader_def setCanceler_def close_body_def Send_def Send_dispatch_def
  recv_def chan_recv_def make_chan_def fire_def go_func_def run_goroutine_def chan_send_def
  chan_try_send_def Abort_def js_abort_def CancelRequest_def new_XMLHttpRequest_def
  world0_def make_response_def canceler_def

lemma hdrs0_Version: "fst (go_ReadMIMEHeader hdrs0) ''Version'' = Some [''HTTP/1.1'']"
  by (simp add: go_ReadMIMEHeader_def hdrs0_def crlf_def chomp_def add_header_def trim_def is_blank_def)

lemma hdrs0_ContentType: "fst (go_ReadMIMEHeader hdrs0) ''Content-Type'' = Some [''application/json'']"
  by (simp add: go_ReadMIMEHeader_def hdrs0_def crlf_def chomp_def add_header_def trim_def is_blank_def)

lemma hdrs0_err: "snd (go_ReadMIMEHeader hdrs0) = None"
  by (simp add: go_ReadMIMEHeader_def hdrs0_def crlf_def chomp_def add_header_def trim_def is_blank_def)

lemma go_ParseHTTPVersion_fail:
  "\<not> snd (snd (go_ParseHTTPVersion v)) \<Longrightarrow> go_ParseHTTPVersion v = (0, 0, False)"
  by (induction v rule: go_ParseHTTPVersion.induct) (auto split: option.splits if_splits)

subsection \<open>The header loop\<close>

lemma forward_values:
  "foldl (\<lambda>r' vv. SetRequestHeader r' k vv) r vs = r\<lparr>calls := calls r @ map (JsSetRequestHeader k) vs\<rparr>"
  by (induction vs arbitrary: r) (simp_all add: SetRequestHeader_def)

lemma header_pairs_Cons:
  "header_pairs ((k, vs) # hdr) = map (Pair k) vs @ header_pairs hdr"
  by (simp add: header_pairs_def)

lemma forward_headers_eq:
  "forward_headers hdr r =
     r\<lparr>calls := calls r @ map (\<lambda>(k, v). JsSetRequestHeader k v) (header_pairs hdr)\<rparr>"
proof (induction hdr arbitrary: r)
  case Nil
  show ?case by (simp add: forward_headers_def header_pairs_def)
next
  case (Cons e hdr)
  obtain k vs where e: "e = (k, vs)" by (cases e)
  have "forward_headers (e # hdr) r =
          forward_headers hdr (foldl (\<lambda>r' vv. SetRequestHeader r' k vv) r vs)"
    by (simp add: forward_headers_def e)
  then show ?case
    by (simp add: Cons.IH forward_values e header_pairs_Cons comp_def)
qed

lemma attached_append: "attached (xs @ ys) = attached xs @ attached ys"
  by (induction xs rule: attached.induct) simp_all

lemma attached_header_calls: "attached (map (\<lambda>(k, v). JsSetRequestHeader k v) ps) = ps"
  by (induction ps) auto

lemma header_pairs_Nil: "header_pairs [] = []"
  by (simp add: header_pairs_def)

lemma header_pairs_absent:
  "k \<notin> fst ` set hdr \<Longrightarrow> filter (\<lambda>kv. fst kv = k) (header_pairs hdr) = []"
  by (induction hdr) (auto simp: header_pairs_Nil header_pairs_Cons filter_empty_conv)

lemma header_pairs_key:
  "distinct (map fst hdr) \<Longrightarrow> (k, vs) \<in> set hdr \<Longrightarrow>
     map snd (filter (\<lambda>kv. fst kv = k) (header_pairs hdr)) = vs"
proof (induction hdr)
  case Nil
  then show ?case by simp
next
  case (Cons e hdr)
  obtain k' vs' where e: "e = (k', vs')" by (cases e)
  show ?case
  proof (cases "k' = k")
    case True
    with Cons.prems e have "k \<notin> fst ` set hdr" by auto
    then have 1: "filter (\<lambda>kv. fst kv = k) (header_pairs hdr) = []"
      by (rule header_pairs_absent)
    from True Cons.prems e have "vs' = vs" by (auto simp: image_iff) 
    with True 1 show ?thesis by (simp add: e header_pairs_Cons comp_def)
  next
    case False
    with Cons.prems e have "(k, vs) \<in> set hdr" "distinct (map fst hdr)" by auto
    with Cons.IH have "map snd (filter (\<lambda>kv. fst kv = k) (header_pairs hdr)) = vs" by simp
    with False show ?thesis by (simp add: e header_pairs_Cons filter_empty_conv)
  qed
qed

subsection \<open>The attach calls of a handle are not touched once made\<close>

lemma calls_go_func: "calls (go_func v r) = calls r"
  by (simp add: go_func_def)

lemma calls_run_goroutine: "calls (run_goroutine i r) = calls r"
  by (simp add: run_goroutine_def split: option.splits)

lemma calls_listeners:
  "calls (foldl (\<lambda>r' (nm, v). if nm = n then go_func v r' else r') r0 ls) = calls r0"
  by (induction ls arbitrary: r0) (simp_all add: calls_go_func split: prod.splits)

lemma calls_fire: "calls (fire ev r) = calls r"
proof -
  have "calls (browser_set ev r) = calls r" by (cases ev) simp_all
  then show ?thesis by (simp add: fire_def calls_listeners)
qed

lemma attached_Abort: "attached (calls (Abort r)) = attached (calls r)"
  by (simp add: Abort_def js_abort_def attached_append split: option.splits)

lemma attached_at_on_xhr:
  "(\<And>r. attached (calls (f r)) = attached (calls r)) \<Longrightarrow> attached_at (on_xhr q f w) p = attached_at w p"
  by (simp add: attached_at_def on_xhr_def split: option.splits)

lemma attached_at_env_step: "attached_at (env_step a w) p = attached_at w p"
  by (cases a)
     (simp_all add: attached_at_on_xhr calls_fire calls_run_goroutine attached_Abort
        CancelRequest_cases split: option.splits)

lemma attached_at_recv: "attached_at (fst (recv p s)) q = attached_at (fst s) q"
  by (simp add: recv_def attached_at_def split: prod.splits option.splits)

lemma attached_at_parked: "attached_at (fst (parked p sched s)) q = attached_at (fst s) q"
  by (induction sched arbitrary: s) (simp_all add: attached_at_recv attached_at_env_step)

lemma attached_at_Send: "attached_at (fst (Send w p d sched)) q = attached_at w q"
proof (cases rule: Send_cases [of w p d sched])
  case nil
  then show ?thesis by simp
next
  case (reused r)
  then show ?thesis by simp
next
  case (waits r r' w2 g)
  let ?w1 = "w\<lparr>heap := (heap w)(p \<mapsto> r')\<rparr>"
  from waits(2,3) have "calls r' = calls r @ [JsSend d]"
    by (auto simp: Send_dispatch_def split: if_splits)
  with waits(1) have "attached_at ?w1 q = attached_at w q"
    by (simp add: attached_at_def attached_append)
  moreover have "attached_at (fst (parked p sched (recv p (?w1, None)))) q = attached_at ?w1 q"
    by (simp add: attached_at_parked attached_at_recv)
  ultimately show ?thesis using waits(4,5) by simp
qed

subsection \<open>The two halves of RoundTrip\<close>

lemma RoundTrip_setup_Inr:
  assumes "RoundTrip_setup w rp req = Inr (x, data, w5)"
  shows "Host req = []" and "x = fresh w" and "canceler w5 rp = Some x"
    and "heap w5 x = Some (new_XMLHttpRequest
           \<lparr>calls := JsOpen (Method req) (URL req) None #
                      map (\<lambda>(k, v). JsSetRequestHeader k v) (header_pairs (Header req)),
            ResponseType := ''arraybuffer''\<rparr>)"
  using assms unfolding RoundTrip_setup_def
  by (auto simp: NewRequest_def on_xhr_def forward_headers_eq setCanceler_def canceler_def Let_def
           split: if_splits option.splits prod.splits)

lemma RoundTrip_setup_Inl:
  assumes "RoundTrip_setup w rp req = Inl (w', e)"
  shows "transport w' = transport w"
    and "Host req \<noteq> [] \<Longrightarrow> w' = w \<and> e = New ''cannot set Host header with XHR''"
    and "Host req = [] \<Longrightarrow> attached_at w' (fresh w) = Some (header_pairs (Header req))"
  using assms unfolding RoundTrip_setup_def
  by (auto simp: NewRequest_def on_xhr_def forward_headers_eq close_body_def Let_def
                 attached_at_def attached_header_calls new_XMLHttpRequest_def
           split: if_splits option.splits prod.splits)

lemma unsent_setup:
  assumes "RoundTrip_setup w rp req = Inr (x, data, w5)"
  shows "unsent w5 x"
  using RoundTrip_setup_Inr(4) [OF assms]
  by (simp add: unsent_def used_def new_XMLHttpRequest_def)

lemma attached_at_setup:
  assumes "RoundTrip_setup w rp req = Inr (x, data, w5)"
  shows "attached_at w5 x = Some (header_pairs (Header req))"
  using RoundTrip_setup_Inr(4) [OF assms]
  by (simp add: attached_at_def attached_header_calls)

lemma RoundTrip_cases:
  obtains
    (early) w' e where "RoundTrip_setup w rp req = Inl (w', e)"
      "RoundTrip L w rp req sched = (w', Returns (Inl e))"
  | (blocked) x data w5 w6 where "RoundTrip_setup w rp req = Inr (x, data, w5)"
      "Send w5 x (ByteData data) sched = (w6, Blocks)"
      "RoundTrip L w rp req sched = (w6, Blocks)"
  | (failed) x data w5 w6 e where "RoundTrip_setup w rp req = Inr (x, data, w5)"
      "Send w5 x (ByteData data) sched = (w6, Returns (Some e))"
      "RoundTrip L w rp req sched =
         (close_body rp req (w6\<lparr>transport := setCanceler (transport w6) rp None\<rparr>), Returns (Inl e))"
  | (loaded) x data w5 w6 r where "RoundTrip_setup w rp req = Inr (x, data, w5)"
      "Send w5 x (ByteData data) sched = (w6, Returns None)"
      "heap w6 x = Some r"
      "RoundTrip L w rp req sched =
         (close_body rp req (w6\<lparr>transport := setCanceler (transport w6) rp None\<rparr>),
          Returns (make_response L r rp))"
proof (cases "RoundTrip_setup w rp req")
  case (Inl a)
  obtain w' e where a: "a = (w', e)" by (cases a)
  from Inl a have "RoundTrip L w rp req sched = (w', Returns (Inl e))" by (simp add: RoundTrip_def)
  with Inl a show ?thesis using early by simp
next
  case (Inr b)
  obtain x data w5 where b: "b = (x, data, w5)" by (cases b)
  with Inr have s: "RoundTrip_setup w rp req = Inr (x, data, w5)" by simp
  obtain w6 c where sd: "Send w5 x (ByteData data) sched = (w6, c)"
    by (cases "Send w5 x (ByteData data) sched")
  have u: "unsent w5 x" using s by (rule unsent_setup)
  have c: "c = (case first_outcome w5 x [] sched of None \<Rightarrow> Blocks | Some v \<Rightarrow> Returns v)"
    using Send_outcome [OF u, of "ByteData data" sched] sd by simp
  show ?thesis
  proof (cases "first_outcome w5 x [] sched")
    case None
    with c sd have sd': "Send w5 x (ByteData data) sched = (w6, Blocks)" by simp
    with s have "RoundTrip L w rp req sched = (w6, Blocks)" by (simp add: RoundTrip_def)
    with s sd' show ?thesis by (rule blocked)
  next
    case (Some v)
    with c sd have sd': "Send w5 x (ByteData data) sched = (w6, Returns v)" by simp
    have "\<forall>msg. Returns v \<noteq> Panics msg" by simp
    with sd' have "sent w6 x" by (rule Send_sent)
    then obtain r where r: "heap w6 x = Some r" by (auto simp: sent_def split: option.splits)
    then have r': "heap (close_body rp req (w6\<lparr>transport := setCanceler (transport w6) rp None\<rparr>)) x = Some r"
      by (simp add: close_body_def split: option.splits)
    show ?thesis
    proof (cases v)
      case None
      with s sd' r' have "RoundTrip L w rp req sched =
         (close_body rp req (w6\<lparr>transport := setCanceler (transport w6) rp None\<rparr>),
          Returns (make_response L r rp))"
        by (simp add: RoundTrip_def Let_def)
      with s sd' None r show ?thesis using loaded by simp
    next
      case (Some e)
      with s sd' have "RoundTrip L w rp req sched =
         (close_body rp req (w6\<lparr>transport := setCanceler (transport w6) rp None\<rparr>), Returns (Inl e))"
        by (simp add: RoundTrip_def Let_def)
      with s sd' Some show ?thesis using failed by simp
    qed
  qed
qed

lemma canceler_cleared:
  "canceler (close_body rp req (w\<lparr>transport := setCanceler (transport w) rp None\<rparr>)) rp = None"
  by (simp add: canceler_def close_body_def setCanceler_def split: option.splits)

lemma attached_at_finish:
  "attached_at (close_body rp req (w\<lparr>transport := t\<rparr>)) p = attached_at w p"
  by (simp add: attached_at_def close_body_def split: option.splits)


section \<open>The claims about RoundTrip\<close>

text \<open>
  C3. \<^verbatim>\<open>RoundTrip\<close> never panics. When it gets as far as \<^verbatim>\<open>x.Send\<close>, the handle
  is in the transport's map under the request pointer when \<^verbatim>\<open>Send\<close> is called and
  for as long as it runs; and when \<^verbatim>\<open>RoundTrip\<close> returns, with a response or with an
  error, the map has no entry for the request pointer. A call that returns before it
  registers anything (host override, unreadable body) leaves the map as it found it.
\<close>

theorem RoundTrip_deregisters:
  "(\<forall>msg. snd (RoundTrip L w rp req sched) \<noteq> Panics msg) \<and>
   (\<forall>x data w5. RoundTrip_setup w rp req = Inr (x, data, w5) \<longrightarrow>
      canceler w5 rp = Some x \<and> canceler (fst (Send w5 x (ByteData data) sched)) rp = Some x) \<and>
   (\<forall>w' res. RoundTrip L w rp req sched = (w', Returns res) \<longrightarrow>
      canceler w' rp = (case RoundTrip_setup w rp req of Inl e \<Rightarrow> canceler w rp | Inr s \<Rightarrow> None))"
proof (intro conjI allI impI)
  fix msg
  show "snd (RoundTrip L w rp req sched) \<noteq> Panics msg"
    by (cases rule: RoundTrip_cases [of w rp req L sched]) simp_all
next
  fix x data w5
  assume s: "RoundTrip_setup w rp req = Inr (x, data, w5)"
  then show "canceler w5 rp = Some x" by (rule RoundTrip_setup_Inr(3))
  moreover have "canceler (fst (Send w5 x (ByteData data) sched)) rp = canceler w5 rp"
    by (rule canceler_cong) (rule transport_Send)
  ultimately show "canceler (fst (Send w5 x (ByteData data) sched)) rp = Some x" by simp
next
  fix w' res
  assume rt: "RoundTrip L w rp req sched = (w', Returns res)"
  show "canceler w' rp = (case RoundTrip_setup w rp req of Inl e \<Rightarrow> canceler w rp | Inr s \<Rightarrow> None)"
  proof (cases rule: RoundTrip_cases [of w rp req L sched])
    case (early w0 e)
    with rt have "w' = w0" by simp
    with early(1) have "transport w' = transport w" by (simp add: RoundTrip_setup_Inl(1))
    then have "canceler w' rp = canceler w rp" by (rule canceler_cong)
    with early(1) show ?thesis by simp
  next
    case (blocked x data w5 w6)
    with rt show ?thesis by simp
  next
    case (failed x data w5 w6 e)
    with rt show ?thesis by (auto simp: canceler_cleared)
  next
    case (loaded x data w5 w6 r)
    with rt show ?thesis by (auto simp: canceler_cleared)
  qed
qed

theorem RoundTrip_deregisters_witness:
  "canceler (fst (RoundTrip go_stdlib world0 7 req0 [Event 0 load0, Goroutine 0 0])) 7 = None \<and>
   canceler (fst (RoundTrip go_stdlib world0 7 req0 [Event 0 TimeoutEvent, Goroutine 0 0])) 7 = None \<and>
   canceler (fst (RoundTrip go_stdlib world0 7 (req0\<lparr>Host := ''example.org''\<rparr>) [])) 7 = None"
proof -
  have 1: "\<exists>w' res. RoundTrip go_stdlib world0 7 req0 [Event 0 load0, Goroutine 0 0] = (w', Returns res)"
    by (simp add: model_defs req0_def load0_def)
  have 2: "\<exists>w' res. RoundTrip go_stdlib world0 7 req0 [Event 0 TimeoutEvent, Goroutine 0 0] = (w', Returns res)"
    by (simp add: model_defs req0_def)
  have 3: "\<exists>w' res. RoundTrip go_stdlib world0 7 (req0\<lparr>Host := ''example.org''\<rparr>) [] = (w', Returns res)"
    by (simp add: model_defs req0_def)
  have s: "\<exists>s. RoundTrip_setup world0 7 req0 = Inr s"
    by (simp add: RoundTrip_setup_def req0_def NewRequest_def Let_def)
  have h: "\<exists>e. RoundTrip_setup world0 7 (req0\<lparr>Host := ''example.org''\<rparr>) = Inl e"
    by (simp add: RoundTrip_setup_def req0_def)
  have c: "canceler world0 7 = None" by (simp add: canceler_def world0_def)
  from 1 s RoundTrip_deregisters [of go_stdlib world0 7 req0 "[Event 0 load0, Goroutine 0 0]"]
  have "canceler (fst (RoundTrip go_stdlib world0 7 req0 [Event 0 load0, Goroutine 0 0])) 7 = None" by auto
  moreover from 2 s RoundTrip_deregisters [of go_stdlib world0 7 req0 "[Event 0 TimeoutEvent, Goroutine 0 0]"]
  have "canceler (fst (RoundTrip go_stdlib world0 7 req0 [Event 0 TimeoutEvent, Goroutine 0 0])) 7 = None" by auto
  moreover from 3 h c RoundTrip_deregisters [of go_stdlib world0 7 "req0\<lparr>Host := ''example.org''\<rparr>" "[]"]
  have "canceler (fst (RoundTrip go_stdlib world0 7 (req0\<lparr>Host := ''example.org''\<rparr>) [])) 7 = None" by auto
  ultimately show ?thesis by simp
qed

text \<open>
  C5. A request with a non-empty \<^verbatim>\<open>Host\<close> is refused with the configuration error,
  and the world is exactly as before: no handle was allocated, no body was read or
  closed, nothing was called on any browser object, the map is untouched.
\<close>

theorem RoundTrip_Host:
  assumes "Host req \<noteq> []"
  shows "RoundTrip L w rp req sched = (w, Returns (Inl (New ''cannot set Host header with XHR'')))"
  using assms by (simp add: RoundTrip_def RoundTrip_setup_def)

theorem RoundTrip_Host_witness:
  "Host (req0\<lparr>Host := ''example.org'', Body := Some (Reader ''payload'' None)\<rparr>) \<noteq> [] \<and>
   RoundTrip go_stdlib world0 7 (req0\<lparr>Host := ''example.org'', Body := Some (Reader ''payload'' None)\<rparr>)
       [Event 0 load0, Goroutine 0 0] =
     (world0, Returns (Inl (New ''cannot set Host header with XHR'')))"
proof -
  have h: "Host (req0\<lparr>Host := ''example.org'', Body := Some (Reader ''payload'' None)\<rparr>) \<noteq> []" by simp
  from RoundTrip_Host [OF h] h show ?thesis by simp
qed

text \<open>
  C7. For a request that is not refused for its \<^verbatim>\<open>Host\<close>, the
  \<^verbatim>\<open>SetRequestHeader\<close> calls on the handle are, in this order, one call for each value
  of each entry of the header map in the order \<^verbatim>\<open>range\<close> visits the entries; they are
  all made, right after \<^verbatim>\<open>open\<close>, before \<^verbatim>\<open>Send\<close> is called, and nothing that
  happens later changes them. The calls for one header name carry exactly the values of
  that name, in their original order.
\<close>

theorem RoundTrip_forwards_headers:
  assumes "Host req = []"
  shows "attached_at (fst (RoundTrip L w rp req sched)) (fresh w) = Some (header_pairs (Header req)) \<and>
         (\<forall>x data w5. RoundTrip_setup w rp req = Inr (x, data, w5) \<longrightarrow>
            map_option calls (heap w5 x) =
              Some (JsOpen (Method req) (URL req) None #
                    map (\<lambda>(k, v). JsSetRequestHeader k v) (header_pairs (Header req)))) \<and>
         (\<forall>k vs. distinct (map fst (Header req)) \<and> (k, vs) \<in> set (Header req) \<longrightarrow>
            map snd (filter (\<lambda>kv. fst kv = k) (header_pairs (Header req))) = vs)"
proof (intro conjI allI impI)
  show "attached_at (fst (RoundTrip L w rp req sched)) (fresh w) = Some (header_pairs (Header req))"
  proof (cases rule: RoundTrip_cases [of w rp req L sched])
    case (early w' e)
    with assms show ?thesis by (simp add: RoundTrip_setup_Inl(3))
  next
    case (blocked x data w5 w6)
    have "attached_at (fst (Send w5 x (ByteData data) sched)) x = attached_at w5 x"
      by (rule attached_at_Send)
    with blocked show ?thesis
      by (simp add: attached_at_setup [OF blocked(1)] RoundTrip_setup_Inr(2) [OF blocked(1), symmetric])
  next
    case (failed x data w5 w6 e)
    have "attached_at (fst (Send w5 x (ByteData data) sched)) x = attached_at w5 x"
      by (rule attached_at_Send)
    with failed show ?thesis
      by (simp add: attached_at_finish attached_at_setup [OF failed(1)]
            RoundTrip_setup_Inr(2) [OF failed(1), symmetric])
  next
    case (loaded x data w5 w6 r)
    have "attached_at (fst (Send w5 x (ByteData data) sched)) x = attached_at w5 x"
      by (rule attached_at_Send)
    with loaded show ?thesis
      by (simp add: attached_at_finish attached_at_setup [OF loaded(1)]
            RoundTrip_setup_Inr(2) [OF loaded(1), symmetric])
  qed
next
  fix x data w5
  assume "RoundTrip_setup w rp req = Inr (x, data, w5)"
  from RoundTrip_setup_Inr(4) [OF this]
  show "map_option calls (heap w5 x) =
          Some (JsOpen (Method req) (URL req) None #
                map (\<lambda>(k, v). JsSetRequestHeader k v) (header_pairs (Header req)))"
    by simp
next
  fix k vs
  assume "distinct (map fst (Header req)) \<and> (k, vs) \<in> set (Header req)"
  then show "map snd (filter (\<lambda>kv. fst kv = k) (header_pairs (Header req))) = vs"
    by (simp add: header_pairs_key)
qed

theorem RoundTrip_forwards_headers_witness:
  "Host req0 = [] \<and>
   attached_at (fst (RoundTrip go_stdlib world0 7 req0 [Event 0 load0, Goroutine 0 0])) 0 =
     Some [(''Accept'', ''text/plain''), (''Accept'', ''text/html''), (''X-Id'', ''7'')]"
proof -
  have h: "Host req0 = []" by (simp add: req0_def)
  from RoundTrip_forwards_headers [OF h, of go_stdlib world0 7 "[Event 0 load0, Goroutine 0 0]"] h
  show ?thesis by (simp add: world0_def req0_def header_pairs_def)
qed


lemma RoundTrip_loaded:
  assumes "RoundTrip_setup w rp req = Inr (x, data, w5)"
    and "Send w5 x (ByteData data) sched = (w6, Returns None)"
    and "heap w6 x = Some r"
  shows "RoundTrip L w rp req sched =
           (close_body rp req (w6\<lparr>transport := setCanceler (transport w6) rp None\<rparr>),
            Returns (make_response L r rp))"
proof -
  from assms(3) have "heap (close_body rp req (w6\<lparr>transport := setCanceler (transport w6) rp None\<rparr>)) x = Some r"
    by (simp add: close_body_def split: option.splits)
  with assms(1,2) show ?thesis by (simp add: RoundTrip_def Let_def)
qed

lemma RoundTrip_failed:
  assumes "RoundTrip_setup w rp req = Inr (x, data, w5)"
    and "Send w5 x (ByteData data) sched = (w6, Returns (Some e))"
  shows "RoundTrip L w rp req sched =
           (close_body rp req (w6\<lparr>transport := setCanceler (transport w6) rp None\<rparr>),
            Returns (Inl e))"
  using assms by (simp add: RoundTrip_def Let_def)

lemma make_response_Request: "make_response L r rp = Inr resp \<Longrightarrow> resp_Request resp = Some rp"
  by (auto simp: make_response_def Let_def split: option.splits prod.splits if_splits)

text \<open>
  C4. When \<^verbatim>\<open>Send\<close> returns nil and the \<^verbatim>\<open>Response\<close> of the handle is nil,
  \<^verbatim>\<open>RoundTrip\<close> returns the aborted error and no response: the same result as for
  any schedule in which \<^verbatim>\<open>Send\<close> itself returns the aborted error.
\<close>

theorem RoundTrip_cleared_payload:
  assumes "RoundTrip_setup w rp req = Inr (x, data, w5)"
    and "Send w5 x (ByteData data) sched = (w6, Returns None)"
    and "heap w6 x = Some r"
    and "Response r = None"
  shows "snd (RoundTrip L w rp req sched) = Returns (Inl ErrAborted) \<and>
         (\<forall>sched' w6'. Send w5 x (ByteData data) sched' = (w6', Returns (Some ErrAborted)) \<longrightarrow>
            snd (RoundTrip L w rp req sched') = snd (RoundTrip L w rp req sched))"
proof -
  have "make_response L r rp = Inl ErrAborted"
    using assms(4) by (simp add: make_response_def)
  then have 1: "snd (RoundTrip L w rp req sched) = Returns (Inl ErrAborted)"
    by (simp add: RoundTrip_loaded [OF assms(1,2,3)])
  have "snd (RoundTrip L w rp req sched') = Returns (Inl ErrAborted)"
    if "Send w5 x (ByteData data) sched' = (w6', Returns (Some ErrAborted))" for sched' w6'
    by (simp add: RoundTrip_failed [OF assms(1) that])
  with 1 show ?thesis by simp
qed

theorem RoundTrip_cleared_payload_witness:
  "\<exists>x data w5 w6 r.
     RoundTrip_setup world0 7 req0 = Inr (x, data, w5) \<and>
     Send w5 x (ByteData data) [Event 0 load0, Goroutine 0 0, CancelRequestCall 7] = (w6, Returns None) \<and>
     heap w6 x = Some r \<and> Response r = None \<and>
     snd (RoundTrip go_stdlib world0 7 req0 [Event 0 load0, Goroutine 0 0, CancelRequestCall 7]) =
       Returns (Inl ErrAborted)"
proof -
  have "\<exists>x data w5 w6 r.
     RoundTrip_setup world0 7 req0 = Inr (x, data, w5) \<and>
     Send w5 x (ByteData data) [Event 0 load0, Goroutine 0 0, CancelRequestCall 7] = (w6, Returns None) \<and>
     heap w6 x = Some r \<and> Response r = None"
    by (simp add: model_defs req0_def load0_def Let_def)
  then obtain x data w5 w6 r where
    h: "RoundTrip_setup world0 7 req0 = Inr (x, data, w5)"
       "Send w5 x (ByteData data) [Event 0 load0, Goroutine 0 0, CancelRequestCall 7] = (w6, Returns None)"
       "heap w6 x = Some r" "Response r = None"
    by blast
  from RoundTrip_cleared_payload [OF h, of go_stdlib]
  have "snd (RoundTrip go_stdlib world0 7 req0 [Event 0 load0, Goroutine 0 0, CancelRequestCall 7]) =
       Returns (Inl ErrAborted)" by (rule conjunct1)
  with h show ?thesis by blast
qed

text \<open>
  C9. When \<^verbatim>\<open>Send\<close> returns nil with a payload and the header block is read without
  an error other than \<^verbatim>\<open>io.EOF\<close>, \<^verbatim>\<open>RoundTrip\<close> returns a response whatever the
  version token is. With a non-empty \<^verbatim>\<open>Version\<close> entry among the parsed headers,
  \<^verbatim>\<open>Proto\<close> is its first value and the major and minor numbers are the ones
  \<^verbatim>\<open>ParseHTTPVersion\<close> gives for it, zero when it cannot parse the token (the library
  function returns zeros with \<open>False\<close>, which is the last hypothesis); without such an
  entry they are zero.
\<close>

theorem RoundTrip_version:
  assumes "RoundTrip_setup w rp req = Inr (x, data, w5)"
    and "Send w5 x (ByteData data) sched = (w6, Returns None)"
    and "heap w6 x = Some r"
    and "Response r = Some b"
    and "ReadMIMEHeader L (allResponseHeaders r) = (h, e)"
    and "e = None \<or> e = Some EOF"
    and "\<forall>v. snd (snd (ParseHTTPVersion L v)) \<or> ParseHTTPVersion L v = (0, 0, False)"
  shows "\<exists>w' resp. RoundTrip L w rp req sched = (w', Returns (Inr resp)) \<and>
           resp_Header resp = h \<and>
           (case h ''Version'' of
              Some (v # vs) \<Rightarrow>
                Proto resp = v \<and>
                ProtoMajor resp = fst (ParseHTTPVersion L v) \<and>
                ProtoMinor resp = fst (snd (ParseHTTPVersion L v)) \<and>
                (snd (snd (ParseHTTPVersion L v)) \<or> (ProtoMajor resp = 0 \<and> ProtoMinor resp = 0))
            | _ \<Rightarrow> Proto resp = [] \<and> ProtoMajor resp = 0 \<and> ProtoMinor resp = 0)"
proof -
  define version where "version =
    (case h ''Version'' of
       None \<Rightarrow> ([], 0, 0)
     | Some [] \<Rightarrow> ([], 0, 0)
     | Some (v # vs) \<Rightarrow> (case ParseHTTPVersion L v of (major, minor, ok) \<Rightarrow> (v, major, minor)))"
  define resp where "resp =
    \<lparr>resp_Status = itoa (Status r) @ '' '' @ StatusText r, StatusCode = Status r,
     Proto = fst version, ProtoMajor = fst (snd version), ProtoMinor = snd (snd version),
     resp_Header = h, resp_Body = b, ContentLength = int (length b), resp_Request = Some rp\<rparr>"
  have m: "make_response L r rp = Inr resp"
    using assms(4,5,6) by (auto simp: make_response_def Let_def resp_def version_def)
  have 1: "RoundTrip L w rp req sched =
             (close_body rp req (w6\<lparr>transport := setCanceler (transport w6) rp None\<rparr>),
              Returns (Inr resp))"
    by (simp add: RoundTrip_loaded [OF assms(1,2,3)] m)
  have 2: "resp_Header resp = h" by (simp add: resp_def)
  have 3: "(case h ''Version'' of
              Some (v # vs) \<Rightarrow>
                Proto resp = v \<and>
                ProtoMajor resp = fst (ParseHTTPVersion L v) \<and>
                ProtoMinor resp = fst (snd (ParseHTTPVersion L v)) \<and>
                (snd (snd (ParseHTTPVersion L v)) \<or> (ProtoMajor resp = 0 \<and> ProtoMinor resp = 0))
            | _ \<Rightarrow> Proto resp = [] \<and> ProtoMajor resp = 0 \<and> ProtoMinor resp = 0)"
  proof (cases "h ''Version''")
    case None
    then show ?thesis by (simp add: resp_def version_def)
  next
    case (Some l)
    show ?thesis
    proof (cases l)
      case Nil
      with Some show ?thesis by (simp add: resp_def version_def)
    next
      case (Cons v vs)
      obtain ma mi ok where p: "ParseHTTPVersion L v = (ma, mi, ok)"
        by (cases "ParseHTTPVersion L v")
      from assms(7) p have "ok \<or> (ma = 0 \<and> mi = 0)" by (metis fst_conv snd_conv)
      with Some Cons p show ?thesis by (auto simp: resp_def version_def)
    qed
  qed
  from 1 2 3 show ?thesis by blast
qed

theorem RoundTrip_version_witness:
  "\<exists>w' resp. RoundTrip go_stdlib world0 7 req0 [Event 0 load0, Goroutine 0 0] = (w', Returns (Inr resp)) \<and>
     Proto resp = ''HTTP/1.1'' \<and> ProtoMajor resp = 1 \<and> ProtoMinor resp = 1 \<and>
     resp_Header resp ''Content-Type'' = Some [''application/json'']"
proof -
  have "\<exists>x data w5 w6 r.
     RoundTrip_setup world0 7 req0 = Inr (x, data, w5) \<and>
     Send w5 x (ByteData data) [Event 0 load0, Goroutine 0 0] = (w6, Returns None) \<and>
     heap w6 x = Some r \<and> Response r = Some ''hello'' \<and> allResponseHeaders r = hdrs0"
    by (simp add: model_defs req0_def load0_def Let_def)
  then obtain x data w5 w6 r where
    h: "RoundTrip_setup world0 7 req0 = Inr (x, data, w5)"
       "Send w5 x (ByteData data) [Event 0 load0, Goroutine 0 0] = (w6, Returns None)"
       "heap w6 x = Some r" "Response r = Some ''hello''"
    and a: "allResponseHeaders r = hdrs0"
    by blast
  have rd: "ReadMIMEHeader go_stdlib (allResponseHeaders r) = (fst (go_ReadMIMEHeader hdrs0), None)"
    using hdrs0_err by (simp add: go_stdlib_def a prod_eq_iff)
  have e: "(None :: error option) = None \<or> (None :: error option) = Some EOF" by simp
  have c: "\<forall>v. snd (snd (ParseHTTPVersion go_stdlib v)) \<or> ParseHTTPVersion go_stdlib v = (0, 0, False)"
    using go_ParseHTTPVersion_fail by (auto simp: go_stdlib_def)
  from RoundTrip_version [OF h rd e c]
  obtain w' resp where
    r: "RoundTrip go_stdlib world0 7 req0 [Event 0 load0, Goroutine 0 0] = (w', Returns (Inr resp))"
       "resp_Header resp = fst (go_ReadMIMEHeader hdrs0)"
       "(case fst (go_ReadMIMEHeader hdrs0) ''Version'' of
              Some (v # vs) \<Rightarrow>
                Proto resp = v \<and>
                ProtoMajor resp = fst (ParseHTTPVersion go_stdlib v) \<and>
                ProtoMinor resp = fst (snd (ParseHTTPVersion go_stdlib v)) \<and>
                (snd (snd (ParseHTTPVersion go_stdlib v)) \<or> (ProtoMajor resp = 0 \<and> ProtoMinor resp = 0))
            | _ \<Rightarrow> Proto resp = [] \<and> ProtoMajor resp = 0 \<and> ProtoMinor resp = 0)"
    by blast
  from r(3) have "Proto resp = ''HTTP/1.1'' \<and> ProtoMajor resp = 1 \<and> ProtoMinor resp = 1"
    by (simp add: hdrs0_Version go_stdlib_def digit_val_def)
  moreover from r(2) have "resp_Header resp ''Content-Type'' = Some [''application/json'']"
    by (simp add: hdrs0_ContentType)
  ultimately show ?thesis using r(1) by blast
qed

text \<open>
  C10. The \<^verbatim>\<open>Request\<close> field of every response that \<^verbatim>\<open>RoundTrip\<close> returns is the
  pointer to the caller's request, not nil.
\<close>

theorem RoundTrip_keeps_request:
  assumes "RoundTrip L w rp req sched = (w', Returns (Inr resp))"
  shows "resp_Request resp = Some rp"
proof (cases rule: RoundTrip_cases [of w rp req L sched])
  case (early w0 e)
  with assms show ?thesis by simp
next
  case (blocked x data w5 w6)
  with assms show ?thesis by simp
next
  case (failed x data w5 w6 e)
  with assms show ?thesis by simp
next
  case (loaded x data w5 w6 r)
  with assms have "make_response L r rp = Inr resp" by simp
  then show ?thesis by (rule make_response_Request)
qed

theorem RoundTrip_keeps_request_witness:
  "\<exists>w' resp. RoundTrip go_stdlib world0 7 req0 [Event 0 (LoadEvent 200 ''OK'' [] ''hello''), Goroutine 0 0] =
       (w', Returns (Inr resp)) \<and>
     resp_Request resp = Some 7"
proof -
  have "\<exists>w' resp. RoundTrip go_stdlib world0 7 req0 [Event 0 (LoadEvent 200 ''OK'' [] ''hello''), Goroutine 0 0] =
       (w', Returns (Inr resp))"
    by (simp add: model_defs req0_def Let_def go_stdlib_def go_ReadMIMEHeader_def)
  then obtain w' resp where
    r: "RoundTrip go_stdlib world0 7 req0 [Event 0 (LoadEvent 200 ''OK'' [] ''hello''), Goroutine 0 0] =
       (w', Returns (Inr resp))"
    by blast
  from RoundTrip_keeps_request [OF r] r show ?thesis by blast
qed

end
